theory Spec2Isabelle
  imports Main "HOL-Library.Multiset"
begin

section \<open>JavaScript values\<close>

text \<open>
  Items, edits and primary keys are JSON-like JavaScript values. A number is an integer
  of at most \<open>2^53\<close> in absolute value (the range in which every integer is a double) or
  \<open>NaN\<close>; an object is the list of its own properties in insertion order. Arrays nested
  inside items are outside this model, and property names are assumed not to be array
  indices or members of \<open>Object.prototype\<close>.
\<close>

datatype jsval =
    JUndefined
  | JNull
  | JBool bool
  | JNum int
  | JNaN
  | JStr string
  | JObj "(string \<times> jsval) list"

type_synonym obj = "(string \<times> jsval) list"

text \<open>\<open>o[k]\<close>: the value of an own property, \<open>undefined\<close> when there is none.\<close>

definition obj_get :: "obj \<Rightarrow> string \<Rightarrow> jsval" where
  "obj_get ob k = (case map_of ob k of None \<Rightarrow> JUndefined | Some v \<Rightarrow> v)"

text \<open>\<open>o[k] = v\<close>: an existing property keeps its place, a new one is added last.\<close>

primrec obj_set :: "obj \<Rightarrow> string \<Rightarrow> jsval \<Rightarrow> obj" where
  "obj_set [] k v = [(k, v)]"
| "obj_set (p # ps) k v = (if fst p = k then (k, v) # ps else p # obj_set ps k v)"

definition has_key :: "obj \<Rightarrow> string \<Rightarrow> bool" where
  "has_key ob k = (k \<in> set (map fst ob))"

text \<open>A list of properties is an object when no key occurs twice, at every depth.\<close>

fun wf_val :: "jsval \<Rightarrow> bool" where
  "wf_val (JObj kvs) = (distinct (map fst kvs) \<and> (\<forall>p \<in> set kvs. wf_val (snd p)))"
| "wf_val _ = True"

definition wf_obj :: "obj \<Rightarrow> bool" where
  "wf_obj ob = wf_val (JObj ob)"

text \<open>\<open>a === b\<close>. Objects compare by identity; the two sides always come from separately
  cloned structures here, so two objects are never identical. \<open>NaN\<close> equals nothing.\<close>

fun strict_eq :: "jsval \<Rightarrow> jsval \<Rightarrow> bool" where
  "strict_eq JUndefined JUndefined = True"
| "strict_eq JNull JNull = True"
| "strict_eq (JBool a) (JBool b) = (a = b)"
| "strict_eq (JNum a) (JNum b) = (a = b)"
| "strict_eq (JStr a) (JStr b) = (a = b)"
| "strict_eq _ _ = False"

text \<open>Truthiness of a value (\<open>!v\<close> is its negation).\<close>

fun truthy :: "jsval \<Rightarrow> bool" where
  "truthy JUndefined = False"
| "truthy JNull = False"
| "truthy (JBool b) = b"
| "truthy (JNum n) = (n \<noteq> 0)"
| "truthy JNaN = False"
| "truthy (JStr s) = (s \<noteq> [])"
| "truthy (JObj _) = True"

text \<open>lodash \<open>isNil\<close>.\<close>

definition isNil :: "jsval \<Rightarrow> bool" where
  "isNil v = (v = JUndefined \<or> v = JNull)"

text \<open>\<open>key.startsWith('$')\<close>.\<close>

fun startsWith_dollar :: "string \<Rightarrow> bool" where
  "startsWith_dollar [] = False"
| "startsWith_dollar (c # cs) = (c = CHR ''$'')"

section \<open>Utilities (\<open>useUtil\<close>)\<close>

text \<open>\<open>cleanItem\<close>: reduce over \<open>Object.entries(item)\<close>, copying every property whose key
  does not start with \<open>$\<close> into a fresh object.\<close>

definition cleanItem :: "obj \<Rightarrow> obj" where
  "cleanItem item =
     foldl (\<lambda>acc (key, v). if \<not> startsWith_dollar key then obj_set acc key v else acc) [] item"

text \<open>lodash \<open>clamp(number, lower, upper)\<close>.\<close>

definition clamp :: "int \<Rightarrow> int \<Rightarrow> int \<Rightarrow> int" where
  "clamp number lower upper =
     (let n1 = (if number \<le> upper then number else upper)
      in if n1 \<ge> lower then n1 else lower)"

text \<open>\<open>items.slice(start, end)\<close> for integer arguments: a negative index counts from the
  end, both are cut to the length.\<close>

definition slice :: "'a list \<Rightarrow> int \<Rightarrow> int \<Rightarrow> 'a list" where
  "slice items start end' =
     (let len = int (length items);
          k = (if start < 0 then max (len + start) 0 else min start len);
          fin = (if end' < 0 then max (len + end') 0 else min end' len)
      in take (nat (fin - k)) (drop (nat k) items))"

record RelationQueryMultiple =
  page :: int
  limit :: int

definition getPage :: "RelationQueryMultiple \<Rightarrow> int \<Rightarrow> 'a list \<Rightarrow> 'a list" where
  "getPage previewQuery offset items =
     (if limit previewQuery = -1 then items
      else
        let start = clamp ((page previewQuery - 1) * limit previewQuery - offset) 0 (int (length items));
            end' = clamp (page previewQuery * limit previewQuery - offset) 0 (int (length items))
        in slice items start end')"

section \<open>Outcomes\<close>

text \<open>
  A call returns, throws, or leaves the modelled fragment of JavaScript (\<open>Unmodelled\<close>:
  coercion of a string to a number, a sparse array, a long sort with an inconsistent
  comparator, property access on a string).
\<close>

datatype 'a outcome = Return 'a | Throw string | Unmodelled

fun bind :: "'a outcome \<Rightarrow> ('a \<Rightarrow> 'b outcome) \<Rightarrow> 'b outcome" where
  "bind (Return x) f = f x"
| "bind (Throw e) f = Throw e"
| "bind Unmodelled f = Unmodelled"

text \<open>\<open>xs.map(f)\<close> for a callback that may throw: the first throw ends the call.\<close>

fun map_outcome :: "('a \<Rightarrow> 'b outcome) \<Rightarrow> 'a list \<Rightarrow> 'b list outcome" where
  "map_outcome f [] = Return []"
| "map_outcome f (x # xs) = bind (f x) (\<lambda>y. bind (map_outcome f xs) (\<lambda>ys. Return (y # ys)))"

text \<open>\<open>xs.find(p)\<close>: the callback runs on the elements in order until it holds.\<close>

fun find_outcome :: "('a \<Rightarrow> bool outcome) \<Rightarrow> 'a list \<Rightarrow> 'a option outcome" where
  "find_outcome p [] = Return None"
| "find_outcome p (x # xs) = bind (p x) (\<lambda>b. if b then Return (Some x) else find_outcome p xs)"

text \<open>\<open>xs.findIndex(p)\<close>, \<open>-1\<close> when no element satisfies \<open>p\<close>.\<close>

fun findIndex :: "('a \<Rightarrow> bool) \<Rightarrow> 'a list \<Rightarrow> int" where
  "findIndex p [] = -1"
| "findIndex p (x # xs) =
     (if p x then 0 else (let i = findIndex p xs in if i = -1 then -1 else i + 1))"

section \<open>Numbers\<close>

text \<open>\<open>ToNumber\<close>, with result \<open>JNum n\<close> or \<open>JNaN\<close>; the conversion of a string is not
  modelled (\<open>None\<close>). A plain object converts to \<open>NaN\<close>.\<close>

fun to_number :: "jsval \<Rightarrow> jsval option" where
  "to_number JUndefined = Some JNaN"
| "to_number JNull = Some (JNum 0)"
| "to_number (JBool b) = Some (JNum (if b then 1 else 0))"
| "to_number (JNum n) = Some (JNum n)"
| "to_number JNaN = Some JNaN"
| "to_number (JStr s) = None"
| "to_number (JObj ob) = Some JNaN"

text \<open>\<open>Math.max(a, b)\<close>.\<close>

definition math_max :: "jsval \<Rightarrow> jsval \<Rightarrow> jsval outcome" where
  "math_max a b =
     (case (to_number a, to_number b) of
        (Some (JNum x), Some (JNum y)) \<Rightarrow> Return (JNum (max x y))
      | (Some _, Some _) \<Rightarrow> Return JNaN
      | _ \<Rightarrow> Unmodelled)"

text \<open>\<open>v + 1\<close>: addition on numbers, concatenation when \<open>v\<close> converts to a string. The
  sum \<open>2^53 + 1\<close> is no double and rounds to \<open>2^53\<close>.\<close>

fun plus_one :: "jsval \<Rightarrow> jsval" where
  "plus_one JUndefined = JNaN"
| "plus_one JNull = JNum 1"
| "plus_one (JBool b) = JNum (if b then 2 else 1)"
| "plus_one (JNum n) = JNum (if n = 2 ^ 53 then n else n + 1)"
| "plus_one JNaN = JNaN"
| "plus_one (JStr s) = JStr (s @ ''1'')"
| "plus_one (JObj ob) = JStr ''[object Object]1''"

text \<open>\<open>getSortMax(...values)\<close>: a reduce from \<open>null\<close>.\<close>

fun getSortMax_from :: "jsval \<Rightarrow> jsval list \<Rightarrow> jsval outcome" where
  "getSortMax_from mx [] = Return mx"
| "getSortMax_from mx (v # vs) =
     (if mx = JNull then getSortMax_from v vs
      else if v = JNull then getSortMax_from mx vs
      else bind (math_max mx v) (\<lambda>m. getSortMax_from m vs))"

definition getSortMax :: "jsval list \<Rightarrow> jsval outcome" where
  "getSortMax values = getSortMax_from JNull values"

section \<open>lodash \<open>merge\<close>\<close>

text \<open>
  \<open>merge(object, ...sources)\<close> on JSON objects, after lodash's documentation: the
  properties of each source are merged into the destination from left to right; a plain
  object is merged recursively (into the destination's object, or into a fresh one when
  the destination has none there), a source property that is \<open>undefined\<close> is skipped when
  the destination has the key, every other value is assigned. \<open>cloneDeep\<close> is the
  identity on values.
\<close>

fun merge_into :: "obj \<Rightarrow> obj \<Rightarrow> obj" where
  "merge_into dst [] = dst"
| "merge_into dst ((k, JObj src) # rest) =
     merge_into
       (obj_set dst k (JObj (merge_into (case obj_get dst k of JObj d \<Rightarrow> d | _ \<Rightarrow> []) src)))
       rest"
| "merge_into dst ((k, JUndefined) # rest) =
     merge_into (if has_key dst k then dst else obj_set dst k JUndefined) rest"
| "merge_into dst ((k, v) # rest) = merge_into (obj_set dst k v) rest"

definition merge :: "obj \<Rightarrow> obj list \<Rightarrow> obj" where
  "merge object sources = foldl merge_into object sources"

section \<open>Relation metadata and the composable's state\<close>

text \<open>
  The three relation kinds (\<open>RelationO2M\<close>, \<open>RelationM2M\<close>, \<open>RelationM2A\<close>), with the
  parts the composable reads; a field is given by its name (\<open>.field\<close>).
  \<open>relationPrimaryKeyFields\<close> maps a collection to the name of its primary-key field.
\<close>

datatype relation =
    RelationO2M
      (sortField: "string option")
      (reverseJunctionField: string)
      (relatedPrimaryKeyField: string)
  | RelationM2M
      (sortField: "string option")
      (reverseJunctionField: string)
      (relatedPrimaryKeyField: string)
      (junctionPrimaryKeyField: string)
      (junctionField: string)
  | RelationM2A
      (sortField: "string option")
      (reverseJunctionField: string)
      (junctionPrimaryKeyField: string)
      (junctionField: string)
      (collectionField: string)
      (relationPrimaryKeyFields: "(string \<times> string) list")
      (allowedCollections: "string list")

datatype relation_type = O2M | M2M | M2A

fun type_of :: "relation \<Rightarrow> relation_type" where
  "type_of (RelationO2M _ _ _) = O2M"
| "type_of (RelationM2M _ _ _ _ _) = M2M"
| "type_of (RelationM2A _ _ _ _ _ _ _) = M2A"

record ChangesItem =
  create_list :: "obj list"
  update_list :: "obj list"
  delete_list :: "jsval list"

text \<open>The \<open>value\<close> ref: \<open>undefined\<close>, \<open>null\<close>, an array (of primary keys), or the changes.\<close>

datatype value_ref = VUndefined | VNull | VArray "jsval list" | VChanges ChangesItem

record state =
  value_of :: value_ref
  previewQuery :: RelationQueryMultiple
  relation_of :: "relation option"
  itemId :: jsval
  loading :: bool
  fetchedItems :: "obj list"
  existingItemCount :: int
  existingSortMax :: jsval
  fetchedSelectItems :: "obj list"
  unexpectedErrors :: "string list"

text \<open>The getter of the computed \<open>_value\<close>.\<close>

definition no_changes :: ChangesItem where
  "no_changes = \<lparr>create_list = [], update_list = [], delete_list = []\<rparr>"

definition get_value :: "state \<Rightarrow> ChangesItem" where
  "get_value st = (case value_of st of VChanges ch \<Rightarrow> ch | _ \<Rightarrow> no_changes)"

text \<open>\<open>relation.value?.sortField\<close>; it is falsy when absent or the empty string.\<close>

definition sort_field :: "state \<Rightarrow> string option" where
  "sort_field st = (case relation_of st of None \<Rightarrow> None | Some info \<Rightarrow> sortField info)"

section \<open>Selected items (\<open>useSelected\<close>)\<close>

definition isItemSelected :: "state \<Rightarrow> obj \<Rightarrow> bool" where
  "isItemSelected st item =
     (case relation_of st of
        None \<Rightarrow> False
      | Some info \<Rightarrow> obj_get item (reverseJunctionField info) \<noteq> JUndefined)"

text \<open>\<open>{...item, $index: index, $type: t}\<close> for every entry of a list.\<close>

definition tag_entries :: "string \<Rightarrow> obj list \<Rightarrow> obj list" where
  "tag_entries t items =
     map (\<lambda>(index, item). obj_set (obj_set item ''$index'' (JNum (int index))) ''$type'' (JStr t))
       (enumerate 0 items)"

definition selected :: "state \<Rightarrow> obj list" where
  "selected st =
     (case relation_of st of
        None \<Rightarrow> []
      | Some info \<Rightarrow>
          if type_of info = O2M
          then filter (isItemSelected st) (tag_entries ''updated'' (update_list (get_value st)))
          else filter (isItemSelected st) (tag_entries ''created'' (create_list (get_value st))))"

definition selectedOnPage :: "state \<Rightarrow> obj list" where
  "selectedOnPage st = getPage (previewQuery st) (existingItemCount st) (selected st)"

section \<open>Aggregates\<close>

definition totalItemCount :: "state \<Rightarrow> int" where
  "totalItemCount st =
     (if map_option type_of (relation_of st) = Some O2M
      then existingItemCount st + int (length (create_list (get_value st)))
             + int (length (selected st))
      else existingItemCount st + int (length (create_list (get_value st))))"

definition totalSortMax :: "state \<Rightarrow> jsval outcome" where
  "totalSortMax st =
     (case sort_field st of
        None \<Rightarrow> Return JNull
      | Some sf \<Rightarrow>
          if sf = [] then Return JNull
          else
            let createdSorts = map (\<lambda>v. obj_get v sf) (create_list (get_value st)) in
            if map_option type_of (relation_of st) = Some O2M
            then getSortMax (existingSortMax st # createdSorts
                   @ map (\<lambda>v. obj_get v sf) (selected st))
            else getSortMax (existingSortMax st # createdSorts))"

definition createdItems :: "state \<Rightarrow> obj list" where
  "createdItems st =
     (case relation_of st of
        None \<Rightarrow> []
      | Some info \<Rightarrow>
          if type_of info = O2M then create_list (get_value st)
          else filter (\<lambda>item. obj_get item (reverseJunctionField info) = JUndefined)
                 (create_list (get_value st)))"

section \<open>The display view\<close>

definition targetPKField :: "relation \<Rightarrow> string" where
  "targetPKField info =
     (if type_of info = O2M then relatedPrimaryKeyField info else junctionPrimaryKeyField info)"

text \<open>The callback mapped over \<open>fetchedItems\<close>. The entries of the update list are
  objects by their type, so \<open>typeof edit === 'object'\<close> holds for each.\<close>

definition updated_tags :: "int \<Rightarrow> obj" where
  "updated_tags editsIndex =
     [(''$type'', JStr ''updated''), (''$index'', JNum editsIndex), (''$edits'', JNum editsIndex)]"

definition deleted_tags :: "int \<Rightarrow> obj" where
  "deleted_tags deleteIndex = [(''$type'', JStr ''deleted''), (''$index'', JNum deleteIndex)]"

definition editsIndex :: "relation \<Rightarrow> ChangesItem \<Rightarrow> obj \<Rightarrow> int" where
  "editsIndex info ch item =
     findIndex (\<lambda>edit. strict_eq (obj_get edit (targetPKField info)) (obj_get item (targetPKField info)))
       (update_list ch)"

definition deleteIndex :: "relation \<Rightarrow> ChangesItem \<Rightarrow> obj \<Rightarrow> int" where
  "deleteIndex info ch item =
     findIndex (\<lambda>id. strict_eq id (obj_get item (targetPKField info))) (delete_list ch)"

definition display_fetched :: "relation \<Rightarrow> ChangesItem \<Rightarrow> obj \<Rightarrow> obj" where
  "display_fetched info ch item =
     (let updatedItem =
            (if editsIndex info ch item \<noteq> -1
             then merge [] [item, updated_tags (editsIndex info ch item),
                            update_list ch ! nat (editsIndex info ch item)]
             else merge [] [item])
      in if deleteIndex info ch item \<noteq> -1
         then merge updatedItem [deleted_tags (deleteIndex info ch item)]
         else updatedItem)"

text \<open>\<open>v[k]\<close> on an arbitrary value: a \<open>TypeError\<close> on \<open>undefined\<close> and \<open>null\<close>,
  \<open>undefined\<close> on the other primitives; property access on a string is not modelled.\<close>

fun js_get :: "jsval \<Rightarrow> string \<Rightarrow> jsval outcome" where
  "js_get (JObj ob) k = Return (obj_get ob k)"
| "js_get JUndefined k = Throw ''TypeError''"
| "js_get JNull k = Throw ''TypeError''"
| "js_get (JStr s) k = Unmodelled"
| "js_get _ k = Return JUndefined"

text \<open>A value used as a property key; the decimal form of a number is not modelled.\<close>

fun to_key :: "jsval \<Rightarrow> string outcome" where
  "to_key (JStr s) = Return s"
| "to_key JUndefined = Return ''undefined''"
| "to_key JNull = Return ''null''"
| "to_key (JBool b) = Return (if b then ''true'' else ''false'')"
| "to_key JNaN = Return ''NaN''"
| "to_key (JObj ob) = Return ''[object Object]''"
| "to_key (JNum n) = Unmodelled"

text \<open>\<open>relationPrimaryKeyFields[c].field\<close>: a \<open>TypeError\<close> for an unknown collection.\<close>

definition pk_field_of :: "relation \<Rightarrow> jsval \<Rightarrow> string outcome" where
  "pk_field_of info c =
     bind (to_key c) (\<lambda>key.
       case map_of (relationPrimaryKeyFields info) key of
         None \<Rightarrow> Throw ''TypeError''
       | Some f \<Rightarrow> Return f)"

text \<open>The callback of \<open>fetchedSelectItems.find\<close>, one case per relation type.\<close>

fun matches_selected :: "relation \<Rightarrow> obj \<Rightarrow> obj \<Rightarrow> bool outcome" where
  "matches_selected (RelationO2M sf rjf rpk) item edit =
     Return (strict_eq (obj_get edit rpk) (obj_get item rpk))"
| "matches_selected (RelationM2M sf rjf rpk jpk jf) item edit =
     bind (js_get (obj_get edit jf) rpk) (\<lambda>e.
     bind (js_get (obj_get item jf) rpk) (\<lambda>i.
       Return (strict_eq e i)))"
| "matches_selected (RelationM2A sf rjf jpk jf cf rpkf allowed) item edit =
     (let info = RelationM2A sf rjf jpk jf cf rpkf allowed;
          itemCollection = obj_get item cf;
          editCollection = obj_get edit cf
      in bind (pk_field_of info itemCollection) (\<lambda>itemPkField.
         bind (pk_field_of info editCollection) (\<lambda>editPkField.
           if strict_eq itemCollection editCollection
           then bind (js_get (obj_get edit jf) editPkField) (\<lambda>e.
                bind (js_get (obj_get item jf) itemPkField) (\<lambda>i.
                  Return (strict_eq e i)))
           else Return False)))"

definition display_selected :: "relation \<Rightarrow> obj list \<Rightarrow> obj \<Rightarrow> obj outcome" where
  "display_selected info fetchedSelect item =
     bind (find_outcome (matches_selected info item) fetchedSelect) (\<lambda>edits.
       case edits of
         None \<Rightarrow> Return item
       | Some e \<Rightarrow> Return (merge [] [item, e]))"

text \<open>\<open>{...item, $type: 'created', $index: index}\<close> over the page of created items.\<close>

definition display_created :: "obj list \<Rightarrow> obj list" where
  "display_created newItems =
     map (\<lambda>(index, item). obj_set (obj_set item ''$type'' (JStr ''created'')) ''$index'' (JNum (int index)))
       (enumerate 0 newItems)"

text \<open>The array \<open>items\<close> of \<open>displayItems\<close> before the final sort.\<close>

definition display_list :: "relation \<Rightarrow> state \<Rightarrow> obj list outcome" where
  "display_list info st =
     (let items = map (display_fetched info (get_value st)) (fetchedItems st) in
      bind (map_outcome (display_selected info (fetchedSelectItems st)) (selected st))
        (\<lambda>selectedOnPage.
          let newItems = getPage (previewQuery st)
                           (existingItemCount st + int (length (selected st))) (createdItems st)
          in Return (items @ selectedOnPage @ display_created newItems)))"

text \<open>
  \<open>items.sort((a, b) => a[sortField] - b[sortField])\<close>. The sort value of an item as a
  number: \<open>sort_number\<close> is \<open>None\<close> when the value converts to \<open>NaN\<close>. The comparator's
  result is read by its sign only, and a result \<open>NaN\<close> counts as \<open>+0\<close>.
\<close>

definition sort_number :: "string \<Rightarrow> obj \<Rightarrow> int option" where
  "sort_number sf item =
     (case to_number (obj_get item sf) of Some (JNum n) \<Rightarrow> Some n | _ \<Rightarrow> None)"

definition sort_value :: "string \<Rightarrow> obj \<Rightarrow> int" where
  "sort_value sf item = (case sort_number sf item of Some n \<Rightarrow> n | None \<Rightarrow> 0)"

definition compare_by :: "string \<Rightarrow> obj \<Rightarrow> obj \<Rightarrow> int" where
  "compare_by sf a b =
     (case (sort_number sf a, sort_number sf b) of
        (Some x, Some y) \<Rightarrow> x - y
      | _ \<Rightarrow> 0)"

text \<open>
  With a \<open>NaN\<close> among the sort values the comparator is not consistent, and the order is
  the engine's. The model follows V8 (\<open>array-sort.tq\<close>) on an array of fewer than 64
  elements, which is handled as a single run: the longest run from the start is counted,
  non-descending (\<open>order >= 0\<close> between neighbours) or strictly descending and then
  reversed (\<open>CountAndMakeRun\<close>), and every later element is put into the prefix before
  it at the place a binary search finds (\<open>BinaryInsertionSort\<close>).
\<close>

fun run_rest :: "('a \<Rightarrow> 'a \<Rightarrow> int) \<Rightarrow> bool \<Rightarrow> 'a \<Rightarrow> 'a list \<Rightarrow> nat" where
  "run_rest order descending previous [] = 0"
| "run_rest order descending previous (current # rest) =
     (if (if descending then order current previous \<ge> 0 else order current previous < 0)
      then 0
      else Suc (run_rest order descending current rest))"

fun count_run :: "('a \<Rightarrow> 'a \<Rightarrow> int) \<Rightarrow> 'a list \<Rightarrow> bool \<times> nat" where
  "count_run order (elementHigh # elementLow # rest) =
     (order elementLow elementHigh < 0,
      2 + run_rest order (order elementLow elementHigh < 0) elementLow rest)"
| "count_run order xs = (False, length xs)"

function binary_search :: "('a \<Rightarrow> 'a \<Rightarrow> int) \<Rightarrow> 'a \<Rightarrow> 'a list \<Rightarrow> nat \<Rightarrow> nat \<Rightarrow> nat" where
  "binary_search order pivot xs left right =
     (if left < right
      then (if order pivot (xs ! (left + (right - left) div 2)) < 0
            then binary_search order pivot xs left (left + (right - left) div 2)
            else binary_search order pivot xs (left + (right - left) div 2 + 1) right)
      else left)"
  by pat_completeness auto
termination
  by (relation "measure (\<lambda>(order, pivot, xs, left, right). right - left)") auto

declare binary_search.simps [simp del]

fun binary_insertion :: "('a \<Rightarrow> 'a \<Rightarrow> int) \<Rightarrow> 'a list \<Rightarrow> 'a list \<Rightarrow> 'a list" where
  "binary_insertion order sorted_part [] = sorted_part"
| "binary_insertion order sorted_part (pivot # rest) =
     (let left = binary_search order pivot sorted_part 0 (length sorted_part)
      in binary_insertion order (take left sorted_part @ pivot # drop left sorted_part) rest)"

definition short_sort :: "('a \<Rightarrow> 'a \<Rightarrow> int) \<Rightarrow> 'a list \<Rightarrow> 'a list" where
  "short_sort order xs =
     (case count_run order xs of
        (descending, runLength) \<Rightarrow>
          binary_insertion order
            (if descending then rev (take runLength xs) else take runLength xs)
            (drop runLength xs))"

text \<open>
  The sort itself. No comparison is made on fewer than two items. When every sort value
  converts to a number the comparator is consistent and the sort, being stable, is the
  stable sort by that number in every engine. A string among the sort values needs a
  conversion that is not modelled, and so is V8's merging of runs (64 items or more with
  a \<open>NaN\<close> among the sort values).
\<close>

definition sort_items :: "string \<Rightarrow> obj list \<Rightarrow> obj list outcome" where
  "sort_items sf items =
     (if length items \<le> 1 then Return items
      else if list_ex (\<lambda>item. to_number (obj_get item sf) = None) items then Unmodelled
      else if list_all (\<lambda>item. sort_number sf item \<noteq> None) items
      then Return (sort_key (sort_value sf) items)
      else if length items < 64 then Return (short_sort (compare_by sf) items)
      else Unmodelled)"

definition displayItems :: "state \<Rightarrow> obj list outcome" where
  "displayItems st =
     (case relation_of st of
        None \<Rightarrow> Return []
      | Some info \<Rightarrow>
          bind (display_list info st) (\<lambda>items.
            case sortField info of
              None \<Rightarrow> Return items
            | Some sf \<Rightarrow>
                if (limit (previewQuery st) > 0 \<and> totalItemCount st > limit (previewQuery st))
                   \<or> sf = []
                then Return items
                else sort_items sf items))"

section \<open>Actions (\<open>useActions\<close> on \<open>_value\<close>)\<close>

text \<open>
  An action works on the object behind \<open>_value.value\<close> and ends with \<open>updateValue\<close>, which
  stores a clone through the setter and resets when nothing is left. The watchers, which
  run after the action, are not part of it.
\<close>

definition reset :: "state \<Rightarrow> state" where
  "reset st =
     st\<lparr>value_of := (if itemId st = JStr ''+'' then VUndefined else VArray []),
        existingItemCount := 0,
        fetchedItems := []\<rparr>"

definition updateValue :: "state \<Rightarrow> ChangesItem \<Rightarrow> state" where
  "updateValue st ch =
     (let st' = st\<lparr>value_of := VChanges ch\<rparr> in
      if create_list ch = [] \<and> update_list ch = [] \<and> delete_list ch = []
      then reset st' else st')"

text \<open>\<open>(totalSortMax.value || 0) + 1\<close>.\<close>

definition next_sort :: "jsval \<Rightarrow> jsval" where
  "next_sort m = plus_one (if truthy m then m else JNum 0)"

text \<open>
  \<open>totalSortMax\<close> is a computed property: it keeps the result of its last evaluation
  until one of the reactive values it has read changes. \<open>value\<close> is taken to be a \<open>ref\<close>,
  so that the changes object it holds is reactive and a \<open>push\<close> into one of its lists
  makes the computed property stale. While \<open>value\<close> is \<open>undefined\<close>, \<open>null\<close> or an array,
  \<open>_value.value\<close> is the plain object its getter has built, and a \<open>push\<close> into that object
  goes unnoticed: what \<open>totalSortMax\<close> holds stays as it is for the rest of the call.

  The argument \<open>cache\<close> is what the computed property holds, \<open>None\<close> when it is stale and
  the next read evaluates it on the lists as they stand.
\<close>

definition read_totalSortMax :: "state \<Rightarrow> jsval outcome option \<Rightarrow> ChangesItem \<Rightarrow> jsval outcome" where
  "read_totalSortMax st cache ch =
     (case cache of
        Some held \<Rightarrow> held
      | None \<Rightarrow> totalSortMax (st\<lparr>value_of := VChanges ch\<rparr>))"

definition after_push :: "state \<Rightarrow> jsval outcome option \<Rightarrow> jsval outcome option" where
  "after_push st cache = (case value_of st of VChanges c \<Rightarrow> None | _ \<Rightarrow> cache)"

fun create_loop ::
  "state \<Rightarrow> jsval outcome option \<Rightarrow> ChangesItem \<Rightarrow> obj list \<Rightarrow> ChangesItem outcome"
where
  "create_loop st cache ch [] = Return ch"
| "create_loop st cache ch (item # items) =
     (case sort_field st of
        None \<Rightarrow>
          create_loop st (after_push st cache)
            (ch\<lparr>create_list := create_list ch @ [cleanItem item]\<rparr>) items
      | Some sf \<Rightarrow>
          if sf \<noteq> [] \<and> isNil (obj_get item sf)
          then bind (read_totalSortMax st cache ch) (\<lambda>m.
                 create_loop st (after_push st (Some (Return m)))
                   (ch\<lparr>create_list := create_list ch @ [cleanItem (obj_set item sf (next_sort m))]\<rparr>)
                   items)
          else create_loop st (after_push st cache)
                 (ch\<lparr>create_list := create_list ch @ [cleanItem item]\<rparr>) items)"

text \<open>\<open>create(...items)\<close>. \<open>cached\<close> tells whether \<open>totalSortMax\<close> has been read since the
  state last changed; it then holds its value for the state the call starts from.\<close>

definition create :: "state \<Rightarrow> bool \<Rightarrow> obj list \<Rightarrow> state outcome" where
  "create st cached items =
     bind (create_loop st (if cached then Some (totalSortMax st) else None) (get_value st) items)
       (\<lambda>ch. Return (updateValue st ch))"

text \<open>
  \<open>xs[i] = v\<close> for \<open>i = item.$index\<close>: inside the array the element is replaced, at its
  end the array grows by one; beyond the end the array becomes sparse (not modelled). A
  key that is no array index names a property of the array object, which the clone of
  \<open>updateValue\<close> drops. Whether a string is an index is not modelled.
\<close>

fun array_assign :: "'a list \<Rightarrow> jsval \<Rightarrow> 'a \<Rightarrow> 'a list outcome" where
  "array_assign xs (JNum i) v =
     (if i < 0 then Return xs
      else if i < int (length xs) then Return (xs[nat i := v])
      else if i = int (length xs) then Return (xs @ [v])
      else Unmodelled)"
| "array_assign xs (JStr s) v = Unmodelled"
| "array_assign xs _ v = Return xs"

text \<open>\<open>xs.splice(i, 1)\<close>: \<open>i\<close> is converted to an integer (\<open>NaN\<close> to 0), a negative one
  counts from the end, and the element there, if any, is removed.\<close>

definition splice_one :: "'a list \<Rightarrow> jsval \<Rightarrow> 'a list outcome" where
  "splice_one xs i =
     (case to_number i of
        None \<Rightarrow> Unmodelled
      | Some n \<Rightarrow>
          let rel = (case n of JNum j \<Rightarrow> j | _ \<Rightarrow> 0);
              len = int (length xs);
              k = nat (if rel < 0 then max (len + rel) 0 else min rel len)
          in Return (take k xs @ drop (Suc k) xs))"

fun update_loop :: "ChangesItem \<Rightarrow> obj list \<Rightarrow> ChangesItem outcome" where
  "update_loop ch [] = Return ch"
| "update_loop ch (item # items) =
     (if obj_get item ''$type'' = JUndefined \<or> obj_get item ''$index'' = JUndefined
      then update_loop (ch\<lparr>update_list := update_list ch @ [item]\<rparr>) items
      else if obj_get item ''$type'' = JStr ''created''
      then bind (array_assign (create_list ch) (obj_get item ''$index'') (cleanItem item))
             (\<lambda>xs. update_loop (ch\<lparr>create_list := xs\<rparr>) items)
      else if obj_get item ''$type'' = JStr ''updated''
      then bind (array_assign (update_list ch) (obj_get item ''$index'') (cleanItem item))
             (\<lambda>xs. update_loop (ch\<lparr>update_list := xs\<rparr>) items)
      else if obj_get item ''$type'' = JStr ''deleted''
      then (if obj_get item ''$edits'' \<noteq> JUndefined
            then bind (array_assign (update_list ch) (obj_get item ''$edits'') (cleanItem item))
                   (\<lambda>xs. update_loop (ch\<lparr>update_list := xs\<rparr>) items)
            else update_loop (ch\<lparr>update_list := update_list ch @ [cleanItem item]\<rparr>) items)
      else update_loop ch items)"

definition update :: "state \<Rightarrow> obj list \<Rightarrow> state outcome" where
  "update st items =
     (case relation_of st of
        None \<Rightarrow> Return st
      | Some info \<Rightarrow> bind (update_loop (get_value st) items) (\<lambda>ch. Return (updateValue st ch)))"

fun remove_loop :: "state \<Rightarrow> string \<Rightarrow> ChangesItem \<Rightarrow> obj list \<Rightarrow> ChangesItem outcome" where
  "remove_loop st pkField ch [] = Return ch"
| "remove_loop st pkField ch (item # items) =
     (if obj_get item ''$type'' = JUndefined \<or> obj_get item ''$index'' = JUndefined
      then remove_loop st pkField (ch\<lparr>delete_list := delete_list ch @ [obj_get item pkField]\<rparr>) items
      else if obj_get item ''$type'' = JStr ''created''
      then bind (splice_one (create_list ch) (obj_get item ''$index''))
             (\<lambda>xs. remove_loop st pkField (ch\<lparr>create_list := xs\<rparr>) items)
      else if obj_get item ''$type'' = JStr ''updated''
      then (if isItemSelected st item
            then bind (splice_one (update_list ch) (obj_get item ''$index''))
                   (\<lambda>xs. remove_loop st pkField (ch\<lparr>update_list := xs\<rparr>) items)
            else remove_loop st pkField
                   (ch\<lparr>delete_list := delete_list ch @ [obj_get item pkField]\<rparr>) items)
      else if obj_get item ''$type'' = JStr ''deleted''
      then bind (splice_one (delete_list ch) (obj_get item ''$index''))
             (\<lambda>xs. remove_loop st pkField (ch\<lparr>delete_list := xs\<rparr>) items)
      else remove_loop st pkField ch items)"

definition remove :: "state \<Rightarrow> obj list \<Rightarrow> state outcome" where
  "remove st items =
     (case relation_of st of
        None \<Rightarrow> Return st
      | Some info \<Rightarrow>
          bind (remove_loop st (targetPKField info) (get_value st) items)
            (\<lambda>ch. Return (updateValue st ch)))"

text \<open>The object \<open>select\<close> builds for one id; \<open>!collection\<close> holds for a missing and for
  an empty collection name.\<close>

fun select_entry :: "relation \<Rightarrow> jsval \<Rightarrow> string option \<Rightarrow> jsval \<Rightarrow> obj outcome" where
  "select_entry (RelationO2M sf rjf rpk) iid collection item =
     Return (obj_set (obj_set [] rjf iid) rpk item)"
| "select_entry (RelationM2M sf rjf rpk jpk jf) iid collection item =
     Return (obj_set (obj_set [] rjf iid) jf (JObj (obj_set [] rpk item)))"
| "select_entry (RelationM2A sf rjf jpk jf cf rpkf allowed) iid collection item =
     (case collection of
        None \<Rightarrow> Throw ''You need to provide a collection on an m2a''
      | Some c \<Rightarrow>
          if c = [] then Throw ''You need to provide a collection on an m2a''
          else
            (case map_of rpkf c of
               None \<Rightarrow> Throw ''TypeError''
             | Some pkf \<Rightarrow>
                 Return (obj_set (obj_set (obj_set [] rjf iid) cf (JStr c)) jf
                           (JObj (obj_set [] pkf item)))))"

definition select :: "state \<Rightarrow> bool \<Rightarrow> jsval list \<Rightarrow> string option \<Rightarrow> state outcome" where
  "select st cached items collection =
     (case relation_of st of
        None \<Rightarrow> Return st
      | Some info \<Rightarrow>
          bind (map_outcome (select_entry info (itemId st) collection) items) (\<lambda>sel.
            if type_of info = O2M then update st sel else create st cached sel))"

definition clear :: "state \<Rightarrow> state" where
  "clear st =
     (case relation_of st of
        None \<Rightarrow> st
      | Some info \<Rightarrow> reset (st\<lparr>value_of := VChanges no_changes\<rparr>))"

section \<open>Fetching\<close>

text \<open>
  The HTTP client is an external collaborator: each \<open>api.get\<close> is given by what it
  delivers, a failure (the rejected promise's error) or the data of the response.
  \<open>unexpectedError\<close> is recorded in the log \<open>unexpectedErrors\<close>. The count is the integer
  that \<open>Number(...)\<close> yields.
\<close>

datatype 'a response = Failed string | Response 'a

text \<open>The body of the \<open>try\<close> block of \<open>updateFetchedItems\<close>: the state when the block is
  left, and the error when it is left by an exception.\<close>

definition fetch_sort_max :: "state \<Rightarrow> jsval response \<Rightarrow> state \<times> string option" where
  "fetch_sort_max st maxR =
     (case sort_field st of
        None \<Rightarrow> (st, None)
      | Some sf \<Rightarrow>
          if sf = [] then (st, None)
          else (case maxR of
                  Failed e \<Rightarrow> (st, Some e)
                | Response m \<Rightarrow> (st\<lparr>existingSortMax := m\<rparr>, None)))"

definition try_block ::
  "state \<Rightarrow> int response \<Rightarrow> jsval response \<Rightarrow> obj list response \<Rightarrow> state \<times> string option"
where
  "try_block st countR maxR itemsR =
     (let st1 = st\<lparr>loading := True\<rparr> in
      case countR of
        Failed e \<Rightarrow> (st1, Some e)
      | Response n \<Rightarrow>
          let st2 = st1\<lparr>existingItemCount := n\<rparr> in
          if itemId st2 \<noteq> JStr ''+''
          then (case fetch_sort_max st2 maxR of
                  (st3, Some e) \<Rightarrow> (st3, Some e)
                | (st3, None) \<Rightarrow>
                    (case itemsR of
                       Failed e \<Rightarrow> (st3, Some e)
                     | Response d \<Rightarrow> (st3\<lparr>fetchedItems := d\<rparr>, None)))
          else (st2, None))"

text \<open>Before the \<open>try\<close>, the field list of an \<open>m2a\<close> relation reads the primary-key field of
  every allowed collection, a \<open>TypeError\<close> when one has none.\<close>

definition fields_readable :: "relation \<Rightarrow> bool" where
  "fields_readable info =
     (case info of
        RelationM2A sf rjf jpk jf cf rpkf allowed \<Rightarrow> list_all (\<lambda>c. map_of rpkf c \<noteq> None) allowed
      | _ \<Rightarrow> True)"

definition updateFetchedItems ::
  "state \<Rightarrow> int response \<Rightarrow> jsval response \<Rightarrow> obj list response \<Rightarrow> state outcome"
where
  "updateFetchedItems st countR maxR itemsR =
     (case relation_of st of
        None \<Rightarrow> Return st
      | Some info \<Rightarrow>
          if \<not> truthy (itemId st) \<or> itemId st = JStr ''+''
          then Return (st\<lparr>existingItemCount := 0, fetchedItems := []\<rparr>)
          else if \<not> fields_readable info then Throw ''TypeError''
          else
            (case try_block st countR maxR itemsR of
               (st', None) \<Rightarrow> Return (st'\<lparr>loading := False\<rparr>)
             | (st', Some err) \<Rightarrow>
                 Return (st'\<lparr>unexpectedErrors := unexpectedErrors st' @ [err], loading := False\<rparr>)))"

text \<open>\<open>loadSelectedDisplayO2M\<close> and \<open>loadSelectedDisplayM2M\<close>: one \<open>api.get\<close>, awaited
  outside any \<open>try\<close>; \<open>loadSelectedDisplay\<close>, which a watcher runs, has none either.\<close>

definition loadSelectedDisplayO2M :: "state \<Rightarrow> obj list response \<Rightarrow> state outcome" where
  "loadSelectedDisplayO2M st resp =
     (if selectedOnPage st = [] then Return (st\<lparr>fetchedSelectItems := []\<rparr>)
      else (case resp of
              Failed e \<Rightarrow> Throw e
            | Response d \<Rightarrow> Return (st\<lparr>fetchedSelectItems := d\<rparr>)))"

definition loadSelectedDisplayM2M :: "relation \<Rightarrow> state \<Rightarrow> obj list response \<Rightarrow> state outcome" where
  "loadSelectedDisplayM2M info st resp =
     (if selectedOnPage st = [] then Return (st\<lparr>fetchedSelectItems := []\<rparr>)
      else
        bind (map_outcome
                (\<lambda>item. js_get (obj_get item (junctionField info)) (relatedPrimaryKeyField info))
                (selectedOnPage st))
          (\<lambda>ids. case resp of
                    Failed e \<Rightarrow> Throw e
                  | Response d \<Rightarrow>
                      Return (st\<lparr>fetchedSelectItems :=
                                  map (\<lambda>item. [(junctionField info, JObj item)]) d\<rparr>)))"

text \<open>
  \<open>loadSelectedDisplayM2A\<close>: the selected items of the page are grouped by the value of
  their collection field (\<open>reduce\<close> into an object, a group per key in the order of first
  occurrence), and one \<open>api.get\<close> is made per group, its filter listing the group's
  related keys. The requests are awaited together by \<open>Promise.all\<close>, outside any \<open>try\<close>:
  it is rejected with the error of a failed request, of the first in the order of the
  requests here. \<open>responses\<close> gives what the request for a collection delivers.
\<close>

fun group_push :: "(string \<times> obj list) list \<Rightarrow> string \<Rightarrow> obj \<Rightarrow> (string \<times> obj list) list" where
  "group_push [] collection item = [(collection, [item])]"
| "group_push (g # gs) collection item =
     (if fst g = collection then (collection, snd g @ [item]) # gs
      else g # group_push gs collection item)"

fun selectGrouped_from ::
  "string \<Rightarrow> (string \<times> obj list) list \<Rightarrow> obj list \<Rightarrow> (string \<times> obj list) list outcome"
where
  "selectGrouped_from cf acc [] = Return acc"
| "selectGrouped_from cf acc (item # items) =
     bind (to_key (obj_get item cf)) (\<lambda>collection.
       selectGrouped_from cf (group_push acc collection item) items)"

text \<open>The filter of the request for one group: \<open>pkField\<close> and the related keys.\<close>

definition group_request :: "relation \<Rightarrow> string \<times> obj list \<Rightarrow> (string \<times> jsval list) outcome" where
  "group_request info g =
     (case map_of (relationPrimaryKeyFields info) (fst g) of
        None \<Rightarrow> Throw ''TypeError''
      | Some pkField \<Rightarrow>
          bind (map_outcome (\<lambda>item. js_get (obj_get item (junctionField info)) pkField) (snd g))
            (\<lambda>ids. Return (pkField, ids)))"

fun await_all :: "'a response list \<Rightarrow> 'a list outcome" where
  "await_all [] = Return []"
| "await_all (Failed e # rs) = Throw e"
| "await_all (Response d # rs) = bind (await_all rs) (\<lambda>ds. Return (d # ds))"

definition loadSelectedDisplayM2A ::
  "relation \<Rightarrow> state \<Rightarrow> (string \<Rightarrow> obj list response) \<Rightarrow> state outcome"
where
  "loadSelectedDisplayM2A info st responses =
     (if selectedOnPage st = [] then Return (st\<lparr>fetchedSelectItems := []\<rparr>)
      else
        bind (selectGrouped_from (collectionField info) [] (selectedOnPage st)) (\<lambda>selectGrouped.
        bind (map_outcome (group_request info) selectGrouped) (\<lambda>requests.
        bind (await_all (map (\<lambda>g. responses (fst g)) selectGrouped)) (\<lambda>datas.
          Return (st\<lparr>fetchedSelectItems :=
                      concat (map (\<lambda>(g, d).
                                map (\<lambda>item. obj_set (obj_set [] (collectionField info) (JStr (fst g)))
                                              (junctionField info) (JObj item)) d)
                              (zip selectGrouped datas))\<rparr>)))))"

section \<open>Notions of the specification\<close>

text \<open>The arguments \<open>totalSortMax\<close> passes to \<open>getSortMax\<close> for the sort field \<open>sf\<close>.\<close>

definition sort_inputs :: "state \<Rightarrow> string \<Rightarrow> jsval list" where
  "sort_inputs st sf =
     existingSortMax st # map (\<lambda>v. obj_get v sf) (create_list (get_value st))
       @ (if map_option type_of (relation_of st) = Some O2M
          then map (\<lambda>v. obj_get v sf) (selected st) else [])"

text \<open>An object free of \<open>$\<close>-prefixed keys.\<close>

definition dollar_free :: "obj \<Rightarrow> bool" where
  "dollar_free ob = list_all (\<lambda>p. \<not> startsWith_dollar (fst p)) ob"





text \<open>A sort value that takes part in \<open>Math.max\<close> and \<open>+ 1\<close> as a number: neither a string
  nor an object.\<close>

definition sort_primitive :: "jsval \<Rightarrow> bool" where
  "sort_primitive v = (case v of JStr s \<Rightarrow> False | JObj ob \<Rightarrow> False | _ \<Rightarrow> True)"

text \<open>The fetched sort maximum and the sort values of the pending entries are each neither
  a string nor an object.\<close>

definition sort_values_primitive :: "state \<Rightarrow> string \<Rightarrow> bool" where
  "sort_values_primitive st sf =
     (sort_primitive (existingSortMax st)
      \<and> list_all (\<lambda>e. sort_primitive (obj_get e sf)) (create_list (get_value st))
      \<and> list_all (\<lambda>e. sort_primitive (obj_get e sf)) (update_list (get_value st)))"

text \<open>The maximum as the specification words it: \<open>null\<close> inputs are skipped, and the
  result is \<open>null\<close> when nothing is left.\<close>

fun numbers_of :: "jsval list \<Rightarrow> int list" where
  "numbers_of [] = []"
| "numbers_of (JNum n # vs) = n # numbers_of vs"
| "numbers_of (v # vs) = numbers_of vs"

definition max_skipping_null :: "jsval list \<Rightarrow> jsval" where
  "max_skipping_null vs =
     (case numbers_of vs of [] \<Rightarrow> JNull | n # ns \<Rightarrow> JNum (fold max ns n))"

definition number_or_null :: "jsval \<Rightarrow> bool" where
  "number_or_null v = (case v of JNull \<Rightarrow> True | JNum n \<Rightarrow> True | _ \<Rightarrow> False)"

text \<open>The total count as the specification words it: the existing items, the entries of
  the create list and, for a one-to-many relation, the selected items.\<close>

definition counted_items :: "state \<Rightarrow> int" where
  "counted_items st =
     existingItemCount st + int (length (create_list (get_value st)))
       + (if map_option type_of (relation_of st) = Some O2M then int (length (selected st)) else 0)"

text \<open>The condition of sorting as the specification words it: a sort field is configured
  and either the limit is not positive or the total count does not exceed it.\<close>

definition sorting_requested :: "state \<Rightarrow> bool" where
  "sorting_requested st =
     ((case sort_field st of None \<Rightarrow> False | Some sf \<Rightarrow> sf \<noteq> [])
      \<and> (limit (previewQuery st) \<le> 0 \<or> counted_items st \<le> limit (previewQuery st)))"

section \<open>Example states\<close>

definition example_o2m :: relation where
  "example_o2m = RelationO2M (Some ''sort'') ''parent'' ''id''"

definition example_m2m :: relation where
  "example_m2m = RelationM2M (Some ''sort'') ''parent_id'' ''id'' ''jid'' ''child''"

definition example_m2a :: relation where
  "example_m2a =
     RelationM2A None ''parent_id'' ''jid'' ''item'' ''collection''
       [(''pages'', ''id''), (''posts'', ''slug'')] [''pages'', ''posts'']"

text \<open>A parent item 1 of a one-to-many relation with three persisted children (2, 3, 4),
  one newly created child, child 7 selected, an edit of child 2 and child 3 deleted.\<close>

definition example_state :: state where
  "example_state =
     \<lparr>value_of = VChanges
         \<lparr>create_list = [[(''name'', JStr ''new''), (''sort'', JNum 5)]],
          update_list = [[(''parent'', JNum 1), (''id'', JNum 7)],
                         [(''id'', JNum 2), (''name'', JStr ''two'')]],
          delete_list = [JNum 3]\<rparr>,
      previewQuery = \<lparr>page = 1, limit = 25\<rparr>,
      relation_of = Some example_o2m,
      itemId = JNum 1,
      loading = False,
      fetchedItems = [[(''id'', JNum 2), (''name'', JStr ''b''), (''sort'', JNum 1)],
                      [(''id'', JNum 3), (''name'', JStr ''c''), (''sort'', JNum 2)],
                      [(''id'', JNum 4), (''name'', JStr ''d''), (''sort'', JNum 3)]],
      existingItemCount = 3,
      existingSortMax = JNum 3,
      fetchedSelectItems = [[(''id'', JNum 7), (''name'', JStr ''seven''), (''sort'', JNum 2)]],
      unexpectedErrors = []\<rparr>"

text \<open>
  The same parent with no pending change, the state after \<open>select([7])\<close> there, and the
  state after \<open>create({name: 'new'})\<close> on top of that; the data of the selected child has
  not been fetched.
\<close>

definition example_parent :: state where
  "example_parent =
     \<lparr>value_of = VArray [JNum 2, JNum 3, JNum 4],
      previewQuery = \<lparr>page = 1, limit = 25\<rparr>,
      relation_of = Some example_o2m,
      itemId = JNum 1,
      loading = False,
      fetchedItems = [[(''id'', JNum 2), (''name'', JStr ''b''), (''sort'', JNum 1)],
                      [(''id'', JNum 3), (''name'', JStr ''c''), (''sort'', JNum 2)],
                      [(''id'', JNum 4), (''name'', JStr ''d''), (''sort'', JNum 3)]],
      existingItemCount = 3,
      existingSortMax = JNum 3,
      fetchedSelectItems = [],
      unexpectedErrors = []\<rparr>"

definition example_selected_state :: state where
  "example_selected_state =
     example_parent\<lparr>value_of := VChanges
       \<lparr>create_list = [],
        update_list = [[(''parent'', JNum 1), (''id'', JNum 7)]],
        delete_list = []\<rparr>\<rparr>"

definition example_created_state :: state where
  "example_created_state =
     example_parent\<lparr>value_of := VChanges
       \<lparr>create_list = [[(''name'', JStr ''new''), (''sort'', JNum 1)]],
        update_list = [[(''parent'', JNum 1), (''id'', JNum 7)]],
        delete_list = []\<rparr>\<rparr>"

text \<open>A many-to-many relation of parent 1 through a junction collection: one persisted
  junction row, related item 7 selected and one related item newly created.\<close>

definition example_m2m_state :: state where
  "example_m2m_state =
     \<lparr>value_of = VChanges
         \<lparr>create_list = [[(''parent_id'', JNum 1), (''child'', JObj [(''id'', JNum 7)]),
                           (''sort'', JNum 4)],
                          [(''child'', JObj [(''name'', JStr ''fresh'')]), (''sort'', JNum 5)]],
          update_list = [],
          delete_list = []\<rparr>,
      previewQuery = \<lparr>page = 1, limit = 25\<rparr>,
      relation_of = Some example_m2m,
      itemId = JNum 1,
      loading = False,
      fetchedItems = [[(''jid'', JNum 10), (''child'', JObj [(''id'', JNum 3), (''name'', JStr ''c'')]),
                       (''sort'', JNum 1)]],
      existingItemCount = 1,
      existingSortMax = JNum 1,
      fetchedSelectItems = [[(''child'', JObj [(''id'', JNum 7), (''name'', JStr ''seven'')])]],
      unexpectedErrors = []\<rparr>"

text \<open>A many-to-any relation of parent 1 with page 5 selected.\<close>

definition example_m2a_state :: state where
  "example_m2a_state =
     \<lparr>value_of = VChanges
         \<lparr>create_list = [[(''parent_id'', JNum 1), (''collection'', JStr ''pages''),
                           (''item'', JObj [(''id'', JNum 5)])]],
          update_list = [],
          delete_list = []\<rparr>,
      previewQuery = \<lparr>page = 1, limit = 25\<rparr>,
      relation_of = Some example_m2a,
      itemId = JNum 1,
      loading = False,
      fetchedItems = [],
      existingItemCount = 0,
      existingSortMax = JNull,
      fetchedSelectItems = [],
      unexpectedErrors = []\<rparr>"

text \<open>The same relation with page 5 and the post \<open>a\<close> selected.\<close>

definition example_m2a_two :: state where
  "example_m2a_two =
     example_m2a_state\<lparr>value_of := VChanges
       \<lparr>create_list = [[(''parent_id'', JNum 1), (''collection'', JStr ''pages''),
                         (''item'', JObj [(''id'', JNum 5)])],
                        [(''parent_id'', JNum 1), (''collection'', JStr ''posts''),
                         (''item'', JObj [(''slug'', JStr ''a'')])]],
        update_list = [],
        delete_list = []\<rparr>\<rparr>"

section \<open>Properties of objects and lists\<close>

lemma obj_get_obj_set: "obj_get (obj_set ob k v) k' = (if k' = k then v else obj_get ob k')"
  by (induction ob) (auto simp: obj_get_def)

lemma keys_obj_set:
  "map fst (obj_set ob k v) = (if k \<in> set (map fst ob) then map fst ob else map fst ob @ [k])"
  by (induction ob) auto

lemma obj_set_fresh: "k \<notin> set (map fst ob) \<Longrightarrow> obj_set ob k v = ob @ [(k, v)]"
  by (induction ob) auto

lemma distinct_obj_set: "distinct (map fst ob) \<Longrightarrow> distinct (map fst (obj_set ob k v))"
  by (simp add: keys_obj_set)

lemma startsWith_dollar_neq: "\<not> startsWith_dollar k \<Longrightarrow> k \<noteq> ''$type'' \<and> k \<noteq> ''$index'' \<and> k \<noteq> ''$edits''"
  by (cases k) auto

lemma findIndex_none: "findIndex p xs = -1 \<longleftrightarrow> (\<forall>x \<in> set xs. \<not> p x)"
  and findIndex_ge: "findIndex p xs \<ge> -1"
  by (induction xs) (auto simp: Let_def)


section \<open>The page slice\<close>

lemma getPage_fill:
  assumes "1 \<le> page q" "0 \<le> limit q"
  shows "take (nat (limit q)) (drop (nat ((page q - 1) * limit q)) (earlier @ items))
       = take (nat (limit q)) (drop (nat ((page q - 1) * limit q)) earlier)
         @ getPage q (int (length earlier)) items"
proof -
  define k where "k = nat ((page q - 1) * limit q)"
  define l where "l = nat (limit q)"
  have k0: "(page q - 1) * limit q \<ge> 0" using assms by simp
  have kk: "(page q - 1) * limit q = int k" using k0 by (simp add: k_def)
  have ll: "limit q = int l" using assms by (simp add: l_def)
  have pl: "page q * limit q = int k + int l" using kk ll by (simp add: algebra_simps)
  have ne: "limit q \<noteq> -1" using assms by simp
  have "getPage q (int (length earlier)) items
        = take (l - (length earlier - k)) (drop (k - length earlier) items)"
    using ne unfolding getPage_def slice_def clamp_def Let_def kk pl
    by (auto simp: min_def max_def nat_diff_distrib take_all_iff nat_int_add add.commute)
  then show ?thesis unfolding k_def[symmetric] l_def[symmetric]
    by simp
qed

text \<open>
  C4. \<open>getPage(offset, items)\<close> returns the whole list when the limit is \<open>-1\<close>; otherwise it
  is \<open>items.slice(clamp((page - 1) * limit - offset, 0, n), clamp(page * limit - offset, 0, n))\<close>
  with \<open>n\<close> the length of the list. For a page number of at least 1 and a limit of at
  least 0, the requested page of the list made of \<open>offset\<close> many earlier items followed by
  the local items is the part of the page the earlier items occupy followed by exactly
  this slice.
\<close>

theorem getPage_page_slice:
  "(limit q = -1 \<longrightarrow> getPage q offset items = items) \<and>
   (limit q \<noteq> -1 \<longrightarrow>
      getPage q offset items =
        slice items (clamp ((page q - 1) * limit q - offset) 0 (int (length items)))
                    (clamp (page q * limit q - offset) 0 (int (length items)))) \<and>
   (1 \<le> page q \<and> 0 \<le> limit q \<longrightarrow>
      take (nat (limit q)) (drop (nat ((page q - 1) * limit q)) (earlier @ items))
        = take (nat (limit q)) (drop (nat ((page q - 1) * limit q)) earlier)
          @ getPage q (int (length earlier)) items)"
  using getPage_fill[of q earlier items] by (simp add: getPage_def Let_def)

theorem getPage_page_slice_witness:
  "limit \<lparr>page = 2, limit = 3\<rparr> \<noteq> -1 \<and> 1 \<le> page \<lparr>page = 2, limit = 3\<rparr>
   \<and> 0 \<le> limit \<lparr>page = 2, limit = 3\<rparr>
   \<and> getPage \<lparr>page = 2, limit = 3\<rparr> 4 [10, 11, 12, 13 :: nat] = [10, 11]
   \<and> take 3 (drop 3 ([0, 1, 2, 3] @ [10, 11, 12, 13 :: nat]))
       = [3] @ getPage \<lparr>page = 2, limit = 3\<rparr> 4 [10, 11, 12, 13]
   \<and> limit \<lparr>page = 1, limit = -1\<rparr> = -1
   \<and> getPage \<lparr>page = 1, limit = -1\<rparr> 4 [10, 11, 12, 13 :: nat] = [10, 11, 12, 13]"
proof -
  let ?q = "\<lparr>page = 2, limit = 3\<rparr>"
  let ?r = "\<lparr>page = 1, limit = -1\<rparr>"
  let ?items = "[10, 11, 12, 13 :: nat]"
  have h: "limit ?q \<noteq> -1" "1 \<le> page ?q \<and> 0 \<le> limit ?q" "limit ?r = -1" by simp_all
  have sl: "slice ?items (clamp ((page ?q - 1) * limit ?q - 4) 0 (int (length ?items)))
                    (clamp (page ?q * limit ?q - 4) 0 (int (length ?items))) = [10, 11]"
    by (simp add: slice_def clamp_def)
  have a: "getPage ?q 4 ?items = [10, 11]"
    using getPage_page_slice[of ?q 4 ?items "[]"] h(1) sl by metis
  have b: "getPage ?r 4 ?items = ?items"
    using getPage_page_slice[of ?r 4 ?items "[]"] h(3) by metis
  have c0: "take (nat (limit ?q)) (drop (nat ((page ?q - 1) * limit ?q)) ([0, 1, 2, 3] @ ?items))
       = take (nat (limit ?q)) (drop (nat ((page ?q - 1) * limit ?q)) [0, 1, 2, 3])
         @ getPage ?q (int (length [0, 1, 2, 3 :: nat])) ?items"
    using getPage_page_slice[of ?q 4 ?items "[0, 1, 2, 3]"] h(2) by blast
  have n: "nat (limit ?q) = 3" "nat ((page ?q - 1) * limit ?q) = 3"
    "int (length [0, 1, 2, 3 :: nat]) = 4" by simp_all
  have c: "take 3 (drop 3 ([0, 1, 2, 3] @ ?items)) = [3] @ getPage ?q 4 ?items"
    using c0 unfolding n by simp
  show ?thesis using h a b c by blast
qed

section \<open>Aggregate count\<close>

lemma example_selected:
  "selected example_state
     = [[(''parent'', JNum 1), (''id'', JNum 7), (''$index'', JNum 0), (''$type'', JStr ''updated'')]]"
  by (simp add: selected_def example_state_def example_o2m_def get_value_def tag_entries_def
      isItemSelected_def obj_get_def enumerate_eq_zip upt_rec)

lemma tag_entries_nth:
  "i < length items \<Longrightarrow>
   tag_entries t items ! i = obj_set (obj_set (items ! i) ''$index'' (JNum (int i))) ''$type'' (JStr t)"
  by (simp add: tag_entries_def nth_enumerate_eq)

lemma length_tag_entries: "length (tag_entries t items) = length items"
  by (simp add: tag_entries_def)

lemma tag_entries_keep:
  "k \<noteq> ''$index'' \<Longrightarrow> k \<noteq> ''$type'' \<Longrightarrow>
   map (\<lambda>e. obj_get e k) (tag_entries t items) = map (\<lambda>e. obj_get e k) items"
  by (rule nth_equalityI) (simp_all add: length_tag_entries tag_entries_nth obj_get_obj_set)

lemma length_filter_map: "length (filter P (map f xs)) = length (filter (\<lambda>x. P (f x)) xs)"
  by (induction xs) auto

lemma selected_created_partition:
  assumes rel: "relation_of st = Some info" and ty: "type_of info \<noteq> O2M"
    and k: "reverseJunctionField info \<noteq> ''$index''" "reverseJunctionField info \<noteq> ''$type''"
  shows "length (selected st) + length (createdItems st) = length (create_list (get_value st))"
proof -
  let ?k = "reverseJunctionField info"
  let ?cs = "create_list (get_value st)"
  have sel: "isItemSelected st = (\<lambda>item. obj_get item ?k \<noteq> JUndefined)"
    by (rule ext) (simp add: isItemSelected_def rel)
  have "length (selected st)
          = length (filter (\<lambda>v. v \<noteq> JUndefined) (map (\<lambda>e. obj_get e ?k) (tag_entries ''created'' ?cs)))"
    using rel ty unfolding selected_def sel by (simp add: comp_def)
  also have "\<dots> = length (filter (\<lambda>item. obj_get item ?k \<noteq> JUndefined) ?cs)"
    unfolding tag_entries_keep[OF k] by (simp add: comp_def)
  finally have s: "length (selected st) = length (filter (\<lambda>item. obj_get item ?k \<noteq> JUndefined) ?cs)" .
  have c: "createdItems st = filter (\<lambda>item. \<not> obj_get item ?k \<noteq> JUndefined) ?cs"
    using rel ty by (simp add: createdItems_def)
  show ?thesis unfolding s c by (rule sum_length_filter_compl)
qed

text \<open>
  C2. For a relation, \<open>totalItemCount\<close> is the count of fetched existing items plus the
  number of entries of the create list, plus the number of selected items when the
  relation is of type \<open>o2m\<close> and nothing more for \<open>m2m\<close> and \<open>m2a\<close>: there the selected items
  are entries of the create list, which splits into the selected and the created items.
\<close>

theorem totalItemCount_sum:
  "relation_of st = Some info \<Longrightarrow>
   totalItemCount st
     = existingItemCount st + int (length (create_list (get_value st)))
       + (if type_of info = O2M then int (length (selected st)) else 0)
   \<and> (type_of info \<noteq> O2M \<and> reverseJunctionField info \<noteq> ''$index''
        \<and> reverseJunctionField info \<noteq> ''$type'' \<longrightarrow>
        totalItemCount st
          = existingItemCount st + int (length (selected st)) + int (length (createdItems st)))"
proof -
  assume rel: "relation_of st = Some info"
  have a: "totalItemCount st
     = existingItemCount st + int (length (create_list (get_value st)))
       + (if type_of info = O2M then int (length (selected st)) else 0)"
    using rel by (simp add: totalItemCount_def)
  have b: "totalItemCount st
          = existingItemCount st + int (length (selected st)) + int (length (createdItems st))"
    if "type_of info \<noteq> O2M" "reverseJunctionField info \<noteq> ''$index''"
       "reverseJunctionField info \<noteq> ''$type''"
    using selected_created_partition[OF rel that] a that(1) by simp
  show ?thesis using a b by blast
qed

theorem totalItemCount_sum_witness:
  "relation_of example_state = Some example_o2m \<and> type_of example_o2m = O2M
   \<and> totalItemCount example_state = 3 + 1 + 1
   \<and> relation_of example_m2m_state = Some example_m2m \<and> type_of example_m2m \<noteq> O2M
   \<and> reverseJunctionField example_m2m \<noteq> ''$index'' \<and> reverseJunctionField example_m2m \<noteq> ''$type''
   \<and> length (selected example_m2m_state) = 1 \<and> length (createdItems example_m2m_state) = 1
   \<and> totalItemCount example_m2m_state = 1 + 2"
proof -
  have r: "relation_of example_state = Some example_o2m" by (simp add: example_state_def)
  have t: "type_of example_o2m = O2M" by (simp add: example_o2m_def)
  have e: "existingItemCount example_state = 3" by (simp add: example_state_def)
  have c: "length (create_list (get_value example_state)) = 1"
    by (simp add: example_state_def get_value_def)
  have r2: "relation_of example_m2m_state = Some example_m2m" by (simp add: example_m2m_state_def)
  have t2: "type_of example_m2m \<noteq> O2M" "reverseJunctionField example_m2m \<noteq> ''$index''"
    "reverseJunctionField example_m2m \<noteq> ''$type''" by (simp_all add: example_m2m_def)
  have e2: "existingItemCount example_m2m_state = 1" by (simp add: example_m2m_state_def)
  have s2: "length (selected example_m2m_state) = 1" by code_simp
  have c2: "length (createdItems example_m2m_state) = 1" by code_simp
  have m: "totalItemCount example_m2m_state = 1 + 2"
    using totalItemCount_sum[OF r2] t2 e2 s2 c2 by simp
  show ?thesis using totalItemCount_sum[OF r] r t e c example_selected r2 t2 s2 c2 m by simp
qed

section \<open>The sort maximum\<close>

lemma fold_max_max: "fold max ns (max (a::int) b) = max a (fold max ns b)"
proof (induction ns arbitrary: b)
  case Nil
  then show ?case by simp
next
  case (Cons x ns)
  have "max x (max a b) = max a (max x b)" by (rule max.left_commute)
  then show ?case using Cons.IH[of "max x b"] by simp
qed

lemma getSortMax_from_numbers:
  "list_all number_or_null vs \<Longrightarrow> number_or_null m \<Longrightarrow>
   getSortMax_from m vs = Return (max_skipping_null (m # vs))"
proof (induction vs arbitrary: m)
  case Nil
  then show ?case by (cases m) (auto simp: number_or_null_def max_skipping_null_def)
next
  case (Cons v vs)
  from Cons.prems have v: "number_or_null v" and vs: "list_all number_or_null vs" by auto
  show ?case
  proof (cases m)
    case JNull
    then show ?thesis using Cons.IH[OF vs v] by (simp add: max_skipping_null_def)
  next
    case (JNum a)
    show ?thesis
    proof (cases v)
      case JNull
      then show ?thesis using Cons.IH[OF vs Cons.prems(2)] JNum by (simp add: max_skipping_null_def)
    next
      case (JNum b)
      have nm: "number_or_null (JNum (max a b))" by (simp add: number_or_null_def)
      show ?thesis using Cons.IH[OF vs nm] JNum \<open>m = JNum a\<close>
        by (simp add: max_skipping_null_def math_max_def fold_max_max max.commute)
    qed (use v in \<open>auto simp: number_or_null_def\<close>)
  qed (use Cons.prems(2) in \<open>auto simp: number_or_null_def\<close>)
qed

lemma max_skipping_null_Null:
  "list_all number_or_null vs \<Longrightarrow> max_skipping_null vs = JNull \<longleftrightarrow> (\<forall>v \<in> set vs. v = JNull)"
proof (induction vs)
  case Nil
  then show ?case by (simp add: max_skipping_null_def)
next
  case (Cons v vs)
  then show ?case by (cases v) (auto simp: max_skipping_null_def number_or_null_def split: list.splits)
qed

lemma totalSortMax_inputs:
  "sort_field st = Some sf \<Longrightarrow> sf \<noteq> [] \<Longrightarrow> totalSortMax st = getSortMax (sort_inputs st sf)"
  by (auto simp: totalSortMax_def sort_inputs_def Let_def)

text \<open>
  On inputs that are each a number or \<open>null\<close>, \<open>totalSortMax\<close> is what its name says: \<open>null\<close>
  without a sort field, and otherwise the maximum of the fetched sort maximum and the
  sort values of the entries of the create list (and, for an \<open>o2m\<close> relation, of the
  selected items) with the \<open>null\<close> inputs skipped, \<open>null\<close> exactly when every input is
  \<open>null\<close>.
\<close>

lemma totalSortMax_number_or_null:
  "((case sort_field st of None \<Rightarrow> True | Some sf \<Rightarrow> sf = []) \<longrightarrow> totalSortMax st = Return JNull) \<and>
   (sort_field st = Some sf \<and> sf \<noteq> [] \<and> list_all number_or_null (sort_inputs st sf) \<longrightarrow>
      totalSortMax st = Return (max_skipping_null (sort_inputs st sf))
      \<and> (totalSortMax st = Return JNull \<longleftrightarrow> (\<forall>v \<in> set (sort_inputs st sf). v = JNull)))"
proof -
  have a: "(case sort_field st of None \<Rightarrow> True | Some sf \<Rightarrow> sf = []) \<longrightarrow> totalSortMax st = Return JNull"
    by (auto simp: totalSortMax_def split: option.splits)
  have b: "totalSortMax st = Return (max_skipping_null (sort_inputs st sf))
      \<and> (totalSortMax st = Return JNull \<longleftrightarrow> (\<forall>v \<in> set (sort_inputs st sf). v = JNull))"
    if h: "sort_field st = Some sf" "sf \<noteq> []" "list_all number_or_null (sort_inputs st sf)"
  proof -
    have ne: "sort_inputs st sf = existingSortMax st # tl (sort_inputs st sf)"
      by (simp add: sort_inputs_def)
    have "getSortMax (sort_inputs st sf) = Return (max_skipping_null (JNull # sort_inputs st sf))"
      unfolding getSortMax_def
      by (rule getSortMax_from_numbers[OF h(3)]) (simp add: number_or_null_def)
    then have r: "totalSortMax st = Return (max_skipping_null (sort_inputs st sf))"
      using totalSortMax_inputs[OF h(1,2)] by (simp add: max_skipping_null_def)
    show ?thesis using r max_skipping_null_Null[OF h(3)] by simp
  qed
  show ?thesis using a b by blast
qed

text \<open>An instance with a \<open>null\<close> among the inputs: a many-to-many relation whose fetched
  sort maximum is 1 and whose create list holds the sort values 4, \<open>null\<close> and 5.\<close>

lemma totalSortMax_number_or_null_example:
  "sort_inputs (example_m2m_state\<lparr>value_of := VChanges
       \<lparr>create_list = [[(''sort'', JNum 4)], [(''sort'', JNull)], [(''sort'', JNum 5)]],
        update_list = [], delete_list = []\<rparr>\<rparr>) ''sort'' = [JNum 1, JNum 4, JNull, JNum 5]
   \<and> totalSortMax (example_m2m_state\<lparr>value_of := VChanges
       \<lparr>create_list = [[(''sort'', JNum 4)], [(''sort'', JNull)], [(''sort'', JNum 5)]],
        update_list = [], delete_list = []\<rparr>\<rparr>) = Return (JNum 5)"
proof -
  let ?s = "example_m2m_state\<lparr>value_of := VChanges
       \<lparr>create_list = [[(''sort'', JNum 4)], [(''sort'', JNull)], [(''sort'', JNum 5)]],
        update_list = [], delete_list = []\<rparr>\<rparr>"
  have sf: "sort_field ?s = Some ''sort''" by code_simp
  have inp: "sort_inputs ?s ''sort'' = [JNum 1, JNum 4, JNull, JNum 5]" by code_simp
  have num: "list_all number_or_null (sort_inputs ?s ''sort'')"
    unfolding inp by (simp add: number_or_null_def)
  have m: "max_skipping_null (sort_inputs ?s ''sort'') = JNum 5"
    unfolding inp by (simp add: max_skipping_null_def)
  show ?thesis
    using totalSortMax_number_or_null[of ?s "''sort''"] sf num m inp by simp
qed

text \<open>
  C3. The claim describes what \<open>totalSortMax\<close> is for, and the code misses it for an \<open>o2m\<close>
  relation with a sort field once an item has been selected. \<open>select([7])\<close> on the parent
  with existing sort maximum 3 records the entry \<open>{parent: 1, id: 7}\<close>, which has no sort
  value. \<open>totalSortMax\<close> reads \<open>undefined\<close> for it, \<open>getSortMax\<close> skips \<open>null\<close> only, and
  \<open>Math.max(3, undefined)\<close> is \<open>NaN\<close>, where the maximum of the inputs is 3. A \<open>create\<close>
  that follows gives its item the sort value \<open>(NaN || 0) + 1 = 1\<close>, below the values
  already in use.
\<close>

theorem totalSortMax_after_select:
  "select example_parent False [JNum 7] None = Return example_selected_state
   \<and> sort_field example_selected_state = Some ''sort''
   \<and> sort_inputs example_selected_state ''sort'' = [JNum 3, JUndefined]
   \<and> max_skipping_null (sort_inputs example_selected_state ''sort'') = JNum 3
   \<and> totalSortMax example_selected_state = Return JNaN
   \<and> create example_selected_state False [[(''name'', JStr ''new'')]] = Return example_created_state
   \<and> create_list (get_value example_created_state) = [[(''name'', JStr ''new''), (''sort'', JNum 1)]]"
proof -
  have a: "select example_parent False [JNum 7] None = Return example_selected_state"
    by code_simp
  have b: "sort_field example_selected_state = Some ''sort''" by code_simp
  have c: "sort_inputs example_selected_state ''sort'' = [JNum 3, JUndefined]" by code_simp
  have d: "max_skipping_null (sort_inputs example_selected_state ''sort'') = JNum 3"
    unfolding c by (simp add: max_skipping_null_def)
  have e: "totalSortMax example_selected_state = Return JNaN" by code_simp
  have f: "create example_selected_state False [[(''name'', JStr ''new'')]] = Return example_created_state"
    by code_simp
  have g: "create_list (get_value example_created_state) = [[(''name'', JStr ''new''), (''sort'', JNum 1)]]"
    by code_simp
  show ?thesis by (intro conjI a b c d e f g)
qed

section \<open>Sorting of the display view\<close>

lemma bind_Return_iff:
  "bind m f = Return y \<longleftrightarrow> (\<exists>x. m = Return x \<and> f x = Return y)"
  by (cases m) auto

lemma map_outcome_length: "map_outcome f xs = Return ys \<Longrightarrow> length ys = length xs"
  by (induction xs arbitrary: ys) (auto simp: bind_Return_iff)

lemma display_list_order:
  "display_list info st = Return items \<Longrightarrow>
   \<exists>sel. map_outcome (display_selected info (fetchedSelectItems st)) (selected st) = Return sel
     \<and> items = map (display_fetched info (get_value st)) (fetchedItems st) @ sel
         @ display_created (getPage (previewQuery st)
             (existingItemCount st + int (length (selected st))) (createdItems st))"
  by (auto simp: display_list_def Let_def bind_Return_iff)

lemma numeric_no_string:
  "list_all (\<lambda>item. sort_number sf item \<noteq> None) items \<Longrightarrow>
   \<not> list_ex (\<lambda>item. to_number (obj_get item sf) = None) items"
  by (auto simp: list_all_iff list_ex_iff sort_number_def split: option.splits)

lemma sort_items_sorted:
  "list_all (\<lambda>item. sort_number sf item \<noteq> None) items \<Longrightarrow>
   \<exists>ys. sort_items sf items = Return ys \<and> sorted (map (sort_value sf) ys) \<and> mset ys = mset items"
proof (cases "length items \<le> 1")
  case True
  then have "sorted (map (sort_value sf) items)"
    by (cases items) (auto simp: le_Suc_eq)
  with True show ?thesis by (simp add: sort_items_def)
next
  case False
  assume "list_all (\<lambda>item. sort_number sf item \<noteq> None) items"
  with False numeric_no_string[of sf items] show ?thesis by (simp add: sort_items_def)
qed

lemma mset_binary_insertion:
  "mset (binary_insertion order sorted_part rest) = mset sorted_part + mset rest"
proof (induction rest arbitrary: sorted_part)
  case Nil
  then show ?case by simp
next
  case (Cons pivot rest)
  have "mset (take k sorted_part @ pivot # drop k sorted_part) = mset sorted_part + {#pivot#}" for k
  proof -
    have "mset (take k sorted_part) + mset (drop k sorted_part) = mset sorted_part"
      by (metis append_take_drop_id mset_append)
    then show ?thesis by (simp add: add.commute add.left_commute)
  qed
  then show ?case using Cons.IH by (simp add: Let_def)
qed


text \<open>
  On a list whose elements the comparator orders by a key, the single-run sort is the
  stable sort by that key: the binary search puts an element behind the elements that
  are not greater, and a run is reversed only when it is strictly descending. The two
  modelled cases of \<open>sort_items\<close> therefore agree on fewer than 64 items with numeric
  sort values.
\<close>

lemma binary_search_stop: "\<not> left < right \<Longrightarrow> binary_search order pivot ys left right = left"
  by (subst binary_search.simps) simp

lemma binary_search_place:
  "sorted (map f ys) \<Longrightarrow> \<forall>y \<in> set ys. (order pivot y < 0) = (f pivot < f y) \<Longrightarrow>
   left \<le> right \<Longrightarrow> right \<le> length ys \<Longrightarrow>
   (\<forall>i < left. f (ys ! i) \<le> f pivot) \<Longrightarrow>
   (\<forall>i. right \<le> i \<and> i < length ys \<longrightarrow> f pivot < f (ys ! i)) \<Longrightarrow>
   binary_search order pivot ys left right \<le> length ys
   \<and> (\<forall>i < binary_search order pivot ys left right. f (ys ! i) \<le> f pivot)
   \<and> (\<forall>i. binary_search order pivot ys left right \<le> i \<and> i < length ys
          \<longrightarrow> f pivot < f (ys ! i))"
proof (induction order pivot ys left right rule: binary_search.induct)
  case (1 order pivot ys left right)
  let ?mid = "left + (right - left) div 2"
  have s: "sorted (map f ys)" by (rule "1.prems"(1))
  have o: "\<forall>y \<in> set ys. (order pivot y < 0) = (f pivot < f y)" by (rule "1.prems"(2))
  show ?case
  proof (cases "left < right")
    case False
    with "1.prems" have "left = right" by simp
    then show ?thesis using "1.prems" by (simp add: binary_search_stop)
  next
    case True
    then have m: "left \<le> ?mid" "?mid < right" by auto
    then have ml: "?mid < length ys" using "1.prems"(4) by simp
    then have om: "(order pivot (ys ! ?mid) < 0) = (f pivot < f (ys ! ?mid))"
      using o nth_mem by blast
    show ?thesis
    proof (cases "order pivot (ys ! ?mid) < 0")
      case lt: True
      have "\<forall>i. ?mid \<le> i \<and> i < length ys \<longrightarrow> f pivot < f (ys ! i)"
      proof (intro allI impI)
        fix i assume i: "?mid \<le> i \<and> i < length ys"
        have "f (ys ! ?mid) \<le> f (ys ! i)"
          using s i sorted_nth_mono[of "map f ys" ?mid i] by simp
        with lt om show "f pivot < f (ys ! i)" by simp
      qed
      from "1.IH"(1)[OF True lt s o m(1) _ "1.prems"(5) this] m "1.prems"(4)
      show ?thesis using True lt by (simp add: binary_search.simps[of _ pivot ys left right])
    next
      case ge: False
      have "\<forall>i < ?mid + 1. f (ys ! i) \<le> f pivot"
      proof (intro allI impI)
        fix i assume i: "i < ?mid + 1"
        have "f (ys ! i) \<le> f (ys ! ?mid)"
          using s i ml sorted_nth_mono[of "map f ys" i ?mid] by simp
        with ge om show "f (ys ! i) \<le> f pivot" by simp
      qed
      from "1.IH"(2)[OF True ge s o _ "1.prems"(4) this "1.prems"(6)] m
      show ?thesis using True ge by (simp add: binary_search.simps[of _ pivot ys left right])
    qed
  qed
qed

lemma insert_place:
  fixes f :: "'a \<Rightarrow> int"
  assumes s: "sorted (map f ys)" and k: "k \<le> length ys"
    and lo: "\<forall>i < k. f (ys ! i) \<le> f p"
    and hi: "\<forall>i. k \<le> i \<and> i < length ys \<longrightarrow> f p < f (ys ! i)"
  shows "sorted (map f (take k ys @ p # drop k ys))"
    and "filter (\<lambda>x. f x = v) (take k ys @ p # drop k ys)
           = filter (\<lambda>x. f x = v) ys @ (if f p = v then [p] else [])"
proof -
  have t: "\<forall>x \<in> set (take k ys). f x \<le> f p"
    using lo k by (auto simp: in_set_conv_nth)
  have d: "\<forall>x \<in> set (drop k ys). f p < f x"
  proof
    fix x assume "x \<in> set (drop k ys)"
    then obtain i where "i < length ys - k" "x = ys ! (k + i)"
      using k by (auto simp: in_set_conv_nth)
    then show "f p < f x" using hi by auto
  qed
  have st: "sorted (map f (take k ys))" "sorted (map f (drop k ys))"
    using s by (simp_all add: sorted_map sorted_wrt_take sorted_wrt_drop)
  have c: "f x \<le> f y" if "x \<in> set (take k ys)" "y \<in> set (drop k ys)" for x y
    using t d that by force
  show "sorted (map f (take k ys @ p # drop k ys))"
    using st t d c by (auto simp: sorted_append less_imp_le)
  have e: "filter (\<lambda>x. f x = v) (drop k ys) = []" if "f p = v"
    using d that by (auto simp: filter_empty_conv)
  have a: "filter (\<lambda>x. f x = v) (take k ys) @ filter (\<lambda>x. f x = v) (drop k ys)
             = filter (\<lambda>x. f x = v) ys"
    by (metis append_take_drop_id filter_append)
  show "filter (\<lambda>x. f x = v) (take k ys @ p # drop k ys)
           = filter (\<lambda>x. f x = v) ys @ (if f p = v then [p] else [])"
    using a e by auto
qed

lemma binary_insertion_stable:
  fixes f :: "'a \<Rightarrow> int"
  shows "sorted (map f sorted_part) \<Longrightarrow>
   \<forall>a \<in> set sorted_part \<union> set rest. \<forall>b \<in> set sorted_part \<union> set rest.
      (order a b < 0) = (f a < f b) \<Longrightarrow>
   sorted (map f (binary_insertion order sorted_part rest))
   \<and> (\<forall>v. filter (\<lambda>x. f x = v) (binary_insertion order sorted_part rest)
          = filter (\<lambda>x. f x = v) sorted_part @ filter (\<lambda>x. f x = v) rest)"
proof (induction rest arbitrary: sorted_part)
  case Nil
  then show ?case by simp
next
  case (Cons pivot rest)
  let ?k = "binary_search order pivot sorted_part 0 (length sorted_part)"
  let ?next = "take ?k sorted_part @ pivot # drop ?k sorted_part"
  have o: "\<forall>y \<in> set sorted_part. (order pivot y < 0) = (f pivot < f y)"
    using Cons.prems(2) by simp
  from binary_search_place[where f = f and ys = sorted_part and order = order and pivot = pivot
      and left = 0 and right = "length sorted_part", OF Cons.prems(1) o]
  have k: "?k \<le> length sorted_part" "\<forall>i < ?k. f (sorted_part ! i) \<le> f pivot"
    "\<forall>i. ?k \<le> i \<and> i < length sorted_part \<longrightarrow> f pivot < f (sorted_part ! i)"
    by auto
  note ip = insert_place[OF Cons.prems(1) k]
  have sub: "set ?next \<union> set rest \<subseteq> set sorted_part \<union> set (pivot # rest)"
    by (auto dest: in_set_takeD in_set_dropD)
  have o': "\<forall>a \<in> set ?next \<union> set rest. \<forall>b \<in> set ?next \<union> set rest.
      (order a b < 0) = (f a < f b)"
    using Cons.prems(2) sub by blast
  from Cons.IH[OF ip(1) o']
  have r: "sorted (map f (binary_insertion order ?next rest))"
    "\<forall>v. filter (\<lambda>x. f x = v) (binary_insertion order ?next rest)
          = filter (\<lambda>x. f x = v) ?next @ filter (\<lambda>x. f x = v) rest" by auto
  have e: "binary_insertion order sorted_part (pivot # rest) = binary_insertion order ?next rest"
    by (simp add: Let_def)
  show ?case
  proof (intro conjI allI)
    show "sorted (map f (binary_insertion order sorted_part (pivot # rest)))"
      unfolding e by (rule r(1))
    fix v
    have "filter (\<lambda>x. f x = v) (binary_insertion order sorted_part (pivot # rest))
            = filter (\<lambda>x. f x = v) ?next @ filter (\<lambda>x. f x = v) rest"
      unfolding e by (rule r(2)[rule_format])
    also have "\<dots> = (filter (\<lambda>x. f x = v) sorted_part @ (if f pivot = v then [pivot] else []))
                      @ filter (\<lambda>x. f x = v) rest"
      by (simp only: ip(2))
    also have "\<dots> = filter (\<lambda>x. f x = v) sorted_part @ filter (\<lambda>x. f x = v) (pivot # rest)"
      by simp
    finally show "filter (\<lambda>x. f x = v) (binary_insertion order sorted_part (pivot # rest))
            = filter (\<lambda>x. f x = v) sorted_part @ filter (\<lambda>x. f x = v) (pivot # rest)" .
  qed
qed

lemma run_rest_ascending:
  fixes f :: "'a \<Rightarrow> int"
  shows "\<forall>a \<in> set (previous # xs). \<forall>b \<in> set (previous # xs). (order a b < 0) = (f a < f b) \<Longrightarrow>
   sorted (map f (previous # take (run_rest order False previous xs) xs))"
proof (induction xs arbitrary: previous)
  case Nil
  then show ?case by simp
next
  case (Cons current rest)
  have o: "\<forall>a \<in> set (current # rest). \<forall>b \<in> set (current # rest). (order a b < 0) = (f a < f b)"
    using Cons.prems by simp
  have c: "(order current previous < 0) = (f current < f previous)" using Cons.prems by simp
  show ?case using Cons.IH[OF o] c by auto
qed

lemma run_rest_descending:
  fixes f :: "'a \<Rightarrow> int"
  shows "\<forall>a \<in> set (previous # xs). \<forall>b \<in> set (previous # xs). (order a b < 0) = (f a < f b) \<Longrightarrow>
   sorted_wrt (\<lambda>a b. f b < f a) (previous # take (run_rest order True previous xs) xs)"
proof (induction xs arbitrary: previous)
  case Nil
  then show ?case by simp
next
  case (Cons current rest)
  have o: "\<forall>a \<in> set (current # rest). \<forall>b \<in> set (current # rest). (order a b < 0) = (f a < f b)"
    using Cons.prems by simp
  have c: "(order current previous < 0) = (f current < f previous)" using Cons.prems by simp
  show ?case
  proof (cases "order current previous \<ge> 0")
    case True
    then show ?thesis by simp
  next
    case False
    then have lt: "f current < f previous" using c by simp
    have "sorted_wrt (\<lambda>a b. f b < f a) (current # take (run_rest order True current rest) rest)"
      by (rule Cons.IH[OF o])
    then show ?thesis using False lt by (auto dest: less_trans)
  qed
qed

lemma descending_rev:
  fixes f :: "'a \<Rightarrow> int"
  assumes "sorted_wrt (\<lambda>a b. f b < f a) xs"
  shows "sorted (map f (rev xs))" and "filter (\<lambda>x. f x = v) (rev xs) = filter (\<lambda>x. f x = v) xs"
proof -
  have "sorted_wrt (\<lambda>a b. f a < f b) (rev xs)"
    using assms by (simp add: sorted_wrt_rev)
  then have "sorted_wrt (\<lambda>a b. f a \<le> f b) (rev xs)"
    by (rule sorted_wrt_mono_rel[rotated]) simp
  then show "sorted (map f (rev xs))" by (simp add: sorted_map)
  have "length (filter (\<lambda>x. f x = v) xs) \<le> 1"
    using assms by (induction xs) (auto simp: filter_empty_conv)
  then have "rev (filter (\<lambda>x. f x = v) xs) = filter (\<lambda>x. f x = v) xs"
    by (cases "filter (\<lambda>x. f x = v) xs") auto
  then show "filter (\<lambda>x. f x = v) (rev xs) = filter (\<lambda>x. f x = v) xs"
    by (simp add: rev_filter)
qed

lemma short_sort_stable:
  fixes f :: "'a \<Rightarrow> int"
  assumes o: "\<forall>a \<in> set xs. \<forall>b \<in> set xs. (order a b < 0) = (f a < f b)"
  shows "short_sort order xs = sort_key f xs"
proof -
  obtain descending runLength where cr: "count_run order xs = (descending, runLength)"
    by (cases "count_run order xs")
  let ?run = "if descending then rev (take runLength xs) else take runLength xs"
  have run: "sorted (map f ?run)
             \<and> (\<forall>v. filter (\<lambda>x. f x = v) ?run = filter (\<lambda>x. f x = v) (take runLength xs))"
  proof (cases xs)
    case Nil
    then show ?thesis using cr by auto
  next
    case (Cons a0 ys)
    show ?thesis
    proof (cases ys)
      case Nil
      then show ?thesis using cr Cons by auto
    next
      case (Cons a1 rest)
      have xs: "xs = a0 # a1 # rest" using \<open>xs = a0 # ys\<close> Cons by simp
      have o1: "\<forall>a \<in> set (a1 # rest). \<forall>b \<in> set (a1 # rest). (order a b < 0) = (f a < f b)"
        using o xs by simp
      have c: "(order a1 a0 < 0) = (f a1 < f a0)" using o xs by simp
      have d: "descending = (f a1 < f a0)"
        and r: "runLength = 2 + run_rest order descending a1 rest"
        using cr xs c by auto
      have t: "take runLength xs = a0 # a1 # take (run_rest order descending a1 rest) rest"
        using r xs by simp
      show ?thesis
      proof (cases descending)
        case True
        have "sorted_wrt (\<lambda>a b. f b < f a) (a1 # take (run_rest order True a1 rest) rest)"
          by (rule run_rest_descending[OF o1])
        then have "sorted_wrt (\<lambda>a b. f b < f a) (take runLength xs)"
          using True d t by (auto dest: less_trans)
        from descending_rev[OF this] show ?thesis using True by simp
      next
        case False
        have "sorted (map f (a1 # take (run_rest order False a1 rest) rest))"
          by (rule run_rest_ascending[OF o1])
        then have "sorted (map f (take runLength xs))"
          using False d t by auto
        then show ?thesis using False by simp
      qed
    qed
  qed
  have sub: "set ?run \<union> set (drop runLength xs) \<subseteq> set xs"
    by (auto dest: in_set_takeD in_set_dropD)
  have o': "\<forall>a \<in> set ?run \<union> set (drop runLength xs). \<forall>b \<in> set ?run \<union> set (drop runLength xs).
      (order a b < 0) = (f a < f b)"
    using o sub by blast
  from binary_insertion_stable[OF run[THEN conjunct1] o']
  have b: "sorted (map f (binary_insertion order ?run (drop runLength xs)))"
    "\<forall>v. filter (\<lambda>x. f x = v) (binary_insertion order ?run (drop runLength xs))
          = filter (\<lambda>x. f x = v) ?run @ filter (\<lambda>x. f x = v) (drop runLength xs)" by auto
  have s: "short_sort order xs = binary_insertion order ?run (drop runLength xs)"
    using cr by (simp add: short_sort_def)
  have fl: "filter (\<lambda>x. f x = v) (short_sort order xs) = filter (\<lambda>x. f x = v) xs" for v
  proof -
    have "filter (\<lambda>x. f x = v) (take runLength xs) @ filter (\<lambda>x. f x = v) (drop runLength xs)
             = filter (\<lambda>x. f x = v) xs"
      by (metis append_take_drop_id filter_append)
    then show ?thesis using s b(2) run by simp
  qed
  have ms: "mset (short_sort order xs) = mset xs"
  proof -
    have "mset (take runLength xs) + mset (drop runLength xs) = mset xs"
      by (metis append_take_drop_id mset_append)
    then show ?thesis unfolding s by (auto simp: mset_binary_insertion)
  qed
  have "sort_key f xs = short_sort order xs"
  proof (rule properties_for_sort_key)
    show "mset (short_sort order xs) = mset xs" by (rule ms)
    show "sorted (map f (short_sort order xs))" using s b(1) by simp
    show "filter (\<lambda>x. f k = f x) (short_sort order xs) = filter (\<lambda>x. f k = f x) xs" for k
      using fl[of "f k"] by (simp add: eq_commute)
  qed
  then show ?thesis by simp
qed

lemma short_sort_numeric:
  assumes "list_all (\<lambda>item. sort_number sf item \<noteq> None) items"
  shows "short_sort (compare_by sf) items = sort_key (sort_value sf) items"
proof (rule short_sort_stable)
  show "\<forall>a \<in> set items. \<forall>b \<in> set items.
          (compare_by sf a b < 0) = (sort_value sf a < sort_value sf b)"
  proof (intro ballI)
    fix a b assume "a \<in> set items" "b \<in> set items"
    with assms have "sort_number sf a \<noteq> None" "sort_number sf b \<noteq> None"
      by (auto simp: list_all_iff)
    then obtain x y where "sort_number sf a = Some x" "sort_number sf b = Some y"
      by blast
    then show "(compare_by sf a b < 0) = (sort_value sf a < sort_value sf b)"
      by (simp add: compare_by_def sort_value_def)
  qed
qed


lemma displayItems_cases:
  assumes "relation_of st = Some info" "display_list info st = Return items"
  shows "displayItems st =
           (if sorting_requested st then sort_items (the (sortField info)) items else Return items)"
  using assms
  by (auto simp: displayItems_def sorting_requested_def counted_items_def totalItemCount_def
        sort_field_def split: option.splits)

text \<open>
  With a relation whose display list (fetched, then selected, then created items) is
  \<open>items\<close>: \<open>displayItems\<close> is the result of sorting \<open>items\<close> by the sort field exactly when
  a sort field is configured and either the limit is not positive or the total item
  count (the existing items, the entries of the create list and, for an \<open>o2m\<close> relation,
  the selected items) does not exceed the limit; when, moreover, the sort value of every
  item converts to a number, it is in ascending order of the sort field and holds the
  same items. In every other case it is \<open>items\<close> itself, in
  fetched-then-selected-then-created order.
\<close>

lemma displayItems_sorting:
  assumes "relation_of st = Some info" "display_list info st = Return items"
  shows "(sorting_requested st \<longrightarrow>
            (\<exists>sf. sortField info = Some sf \<and> sf \<noteq> [] \<and> displayItems st = sort_items sf items
               \<and> (list_all (\<lambda>item. sort_number sf item \<noteq> None) items \<longrightarrow>
                    (\<exists>ys. displayItems st = Return ys \<and> sorted (map (sort_value sf) ys)
                       \<and> mset ys = mset items))))
       \<and> (\<not> sorting_requested st \<longrightarrow> displayItems st = Return items)
       \<and> (\<exists>sel. length sel = length (selected st) \<and>
             items = map (display_fetched info (get_value st)) (fetchedItems st) @ sel
               @ display_created (getPage (previewQuery st)
                   (existingItemCount st + int (length (selected st))) (createdItems st)))"
proof -
  have a: "\<exists>sf. sortField info = Some sf \<and> sf \<noteq> [] \<and> displayItems st = sort_items sf items
               \<and> (list_all (\<lambda>item. sort_number sf item \<noteq> None) items \<longrightarrow>
                    (\<exists>ys. displayItems st = Return ys \<and> sorted (map (sort_value sf) ys)
                       \<and> mset ys = mset items))" if r: "sorting_requested st"
  proof -
    from r assms(1) obtain sf where sf: "sortField info = Some sf" "sf \<noteq> []"
      by (auto simp: sorting_requested_def sort_field_def split: option.splits)
    have d: "displayItems st = sort_items sf items"
      using displayItems_cases[OF assms] r sf by simp
    show ?thesis using sf d sort_items_sorted[of sf items] by auto
  qed
  have b: "\<not> sorting_requested st \<longrightarrow> displayItems st = Return items"
    using displayItems_cases[OF assms] by simp
  have c: "\<exists>sel. length sel = length (selected st) \<and>
             items = map (display_fetched info (get_value st)) (fetchedItems st) @ sel
               @ display_created (getPage (previewQuery st)
                   (existingItemCount st + int (length (selected st))) (createdItems st))"
    using display_list_order[OF assms(2)] map_outcome_length by blast
  show ?thesis using a b c by blast
qed

text \<open>The example parent has three existing items, one entry in the create list and one
  selected item. With the limit 5 the five records are sorted; with the limit 4, which
  the existing items alone do not exceed, the four records of the page are left as they
  are, the selected record with sort value 2 after the fetched one with sort value 3.\<close>

lemma displayItems_sorting_example:
  "relation_of (example_state\<lparr>previewQuery := \<lparr>page = 1, limit = 5\<rparr>\<rparr>) = Some example_o2m
   \<and> counted_items (example_state\<lparr>previewQuery := \<lparr>page = 1, limit = 5\<rparr>\<rparr>) = 5
   \<and> sorting_requested (example_state\<lparr>previewQuery := \<lparr>page = 1, limit = 5\<rparr>\<rparr>)
   \<and> display_list example_o2m (example_state\<lparr>previewQuery := \<lparr>page = 1, limit = 5\<rparr>\<rparr>) = Return
     [[(''id'', JNum 2), (''name'', JStr ''two''), (''sort'', JNum 1), (''$type'', JStr ''updated''),
       (''$index'', JNum 1), (''$edits'', JNum 1)],
      [(''id'', JNum 3), (''name'', JStr ''c''), (''sort'', JNum 2), (''$type'', JStr ''deleted''),
       (''$index'', JNum 0)],
      [(''id'', JNum 4), (''name'', JStr ''d''), (''sort'', JNum 3)],
      [(''parent'', JNum 1), (''id'', JNum 7), (''$index'', JNum 0), (''$type'', JStr ''updated''),
       (''name'', JStr ''seven''), (''sort'', JNum 2)],
      [(''name'', JStr ''new''), (''sort'', JNum 5), (''$type'', JStr ''created''),
       (''$index'', JNum 0)]]
   \<and> displayItems (example_state\<lparr>previewQuery := \<lparr>page = 1, limit = 5\<rparr>\<rparr>) = Return
     [[(''id'', JNum 2), (''name'', JStr ''two''), (''sort'', JNum 1), (''$type'', JStr ''updated''),
       (''$index'', JNum 1), (''$edits'', JNum 1)],
      [(''id'', JNum 3), (''name'', JStr ''c''), (''sort'', JNum 2), (''$type'', JStr ''deleted''),
       (''$index'', JNum 0)],
      [(''parent'', JNum 1), (''id'', JNum 7), (''$index'', JNum 0), (''$type'', JStr ''updated''),
       (''name'', JStr ''seven''), (''sort'', JNum 2)],
      [(''id'', JNum 4), (''name'', JStr ''d''), (''sort'', JNum 3)],
      [(''name'', JStr ''new''), (''sort'', JNum 5), (''$type'', JStr ''created''),
       (''$index'', JNum 0)]]
   \<and> list_all (\<lambda>item. sort_number ''sort'' item \<noteq> None)
     [[(''id'', JNum 2), (''name'', JStr ''two''), (''sort'', JNum 1), (''$type'', JStr ''updated''),
       (''$index'', JNum 1), (''$edits'', JNum 1)],
      [(''id'', JNum 3), (''name'', JStr ''c''), (''sort'', JNum 2), (''$type'', JStr ''deleted''),
       (''$index'', JNum 0)],
      [(''id'', JNum 4), (''name'', JStr ''d''), (''sort'', JNum 3)],
      [(''parent'', JNum 1), (''id'', JNum 7), (''$index'', JNum 0), (''$type'', JStr ''updated''),
       (''name'', JStr ''seven''), (''sort'', JNum 2)],
      [(''name'', JStr ''new''), (''sort'', JNum 5), (''$type'', JStr ''created''),
       (''$index'', JNum 0)]]
   \<and> (\<exists>ys. displayItems (example_state\<lparr>previewQuery := \<lparr>page = 1, limit = 5\<rparr>\<rparr>) = Return ys
          \<and> sorted (map (sort_value ''sort'') ys)
          \<and> mset ys = mset
     [[(''id'', JNum 2), (''name'', JStr ''two''), (''sort'', JNum 1), (''$type'', JStr ''updated''),
       (''$index'', JNum 1), (''$edits'', JNum 1)],
      [(''id'', JNum 3), (''name'', JStr ''c''), (''sort'', JNum 2), (''$type'', JStr ''deleted''),
       (''$index'', JNum 0)],
      [(''id'', JNum 4), (''name'', JStr ''d''), (''sort'', JNum 3)],
      [(''parent'', JNum 1), (''id'', JNum 7), (''$index'', JNum 0), (''$type'', JStr ''updated''),
       (''name'', JStr ''seven''), (''sort'', JNum 2)],
      [(''name'', JStr ''new''), (''sort'', JNum 5), (''$type'', JStr ''created''),
       (''$index'', JNum 0)]])
   \<and> existingItemCount (example_state\<lparr>previewQuery := \<lparr>page = 1, limit = 4\<rparr>\<rparr>) = 3
   \<and> counted_items (example_state\<lparr>previewQuery := \<lparr>page = 1, limit = 4\<rparr>\<rparr>) = 5
   \<and> \<not> sorting_requested (example_state\<lparr>previewQuery := \<lparr>page = 1, limit = 4\<rparr>\<rparr>)
   \<and> displayItems (example_state\<lparr>previewQuery := \<lparr>page = 1, limit = 4\<rparr>\<rparr>) = Return
     [[(''id'', JNum 2), (''name'', JStr ''two''), (''sort'', JNum 1), (''$type'', JStr ''updated''),
       (''$index'', JNum 1), (''$edits'', JNum 1)],
      [(''id'', JNum 3), (''name'', JStr ''c''), (''sort'', JNum 2), (''$type'', JStr ''deleted''),
       (''$index'', JNum 0)],
      [(''id'', JNum 4), (''name'', JStr ''d''), (''sort'', JNum 3)],
      [(''parent'', JNum 1), (''id'', JNum 7), (''$index'', JNum 0), (''$type'', JStr ''updated''),
       (''name'', JStr ''seven''), (''sort'', JNum 2)]]"
proof -
  let ?L = "[[(''id'', JNum 2), (''name'', JStr ''two''), (''sort'', JNum 1), (''$type'', JStr ''updated''),
       (''$index'', JNum 1), (''$edits'', JNum 1)],
      [(''id'', JNum 3), (''name'', JStr ''c''), (''sort'', JNum 2), (''$type'', JStr ''deleted''),
       (''$index'', JNum 0)],
      [(''id'', JNum 4), (''name'', JStr ''d''), (''sort'', JNum 3)],
      [(''parent'', JNum 1), (''id'', JNum 7), (''$index'', JNum 0), (''$type'', JStr ''updated''),
       (''name'', JStr ''seven''), (''sort'', JNum 2)],
      [(''name'', JStr ''new''), (''sort'', JNum 5), (''$type'', JStr ''created''),
       (''$index'', JNum 0)]]"
  let ?Ls = "[[(''id'', JNum 2), (''name'', JStr ''two''), (''sort'', JNum 1), (''$type'', JStr ''updated''),
       (''$index'', JNum 1), (''$edits'', JNum 1)],
      [(''id'', JNum 3), (''name'', JStr ''c''), (''sort'', JNum 2), (''$type'', JStr ''deleted''),
       (''$index'', JNum 0)],
      [(''parent'', JNum 1), (''id'', JNum 7), (''$index'', JNum 0), (''$type'', JStr ''updated''),
       (''name'', JStr ''seven''), (''sort'', JNum 2)],
      [(''id'', JNum 4), (''name'', JStr ''d''), (''sort'', JNum 3)],
      [(''name'', JStr ''new''), (''sort'', JNum 5), (''$type'', JStr ''created''),
       (''$index'', JNum 0)]]"
  let ?L2 = "[[(''id'', JNum 2), (''name'', JStr ''two''), (''sort'', JNum 1), (''$type'', JStr ''updated''),
       (''$index'', JNum 1), (''$edits'', JNum 1)],
      [(''id'', JNum 3), (''name'', JStr ''c''), (''sort'', JNum 2), (''$type'', JStr ''deleted''),
       (''$index'', JNum 0)],
      [(''id'', JNum 4), (''name'', JStr ''d''), (''sort'', JNum 3)],
      [(''parent'', JNum 1), (''id'', JNum 7), (''$index'', JNum 0), (''$type'', JStr ''updated''),
       (''name'', JStr ''seven''), (''sort'', JNum 2)]]"
  let ?s = "example_state\<lparr>previewQuery := \<lparr>page = 1, limit = 5\<rparr>\<rparr>"
  let ?s2 = "example_state\<lparr>previewQuery := \<lparr>page = 1, limit = 4\<rparr>\<rparr>"
  have r: "relation_of ?s = Some example_o2m" by (simp add: example_state_def)
  have r2: "relation_of ?s2 = Some example_o2m" by (simp add: example_state_def)
  have n: "counted_items ?s = 5" by code_simp
  have n2: "counted_items ?s2 = 5" by code_simp
  have e2: "existingItemCount ?s2 = 3" by (simp add: example_state_def)
  have q: "sorting_requested ?s" by code_simp
  have q2: "\<not> sorting_requested ?s2" by code_simp
  have d: "display_list example_o2m ?s = Return ?L" by code_simp
  have d2: "display_list example_o2m ?s2 = Return ?L2" by code_simp
  have sf: "sortField example_o2m = Some ''sort''" by (simp add: example_o2m_def)
  from displayItems_sorting[OF r d, THEN conjunct1, THEN mp, OF q]
  obtain sf' where s1: "sortField example_o2m = Some sf'"
    and s3: "displayItems ?s = sort_items sf' ?L"
    and s4: "list_all (\<lambda>item. sort_number sf' item \<noteq> None) ?L \<longrightarrow>
               (\<exists>ys. displayItems ?s = Return ys \<and> sorted (map (sort_value sf') ys)
                  \<and> mset ys = mset ?L)"
    by (elim exE conjE) (rule that)
  have sfeq: "sf' = ''sort''" using s1 sf by simp
  have "sort_items ''sort'' ?L = Return ?Ls" by code_simp
  then have x: "displayItems ?s = Return ?Ls" using s3 sfeq by simp
  have num: "list_all (\<lambda>item. sort_number ''sort'' item \<noteq> None) ?L" by code_simp
  have ex: "\<exists>ys. displayItems ?s = Return ys \<and> sorted (map (sort_value ''sort'') ys)
                  \<and> mset ys = mset ?L"
    using s4[unfolded sfeq] num by (rule mp)
  have x2: "displayItems ?s2 = Return ?L2"
    by (rule displayItems_sorting[OF r2 d2, THEN conjunct2, THEN conjunct1, THEN mp, OF q2])
  show ?thesis by (intro conjI r n q d x num ex e2 n2 q2 x2)
qed

text \<open>
  C5. \<open>displayItems\<close> is to be in ascending order of the sort field whenever the condition
  above holds, and the code misses that when a displayed record has no sort value.
  \<open>updateFetchedItems\<close> asks for the sort field of every fetched item and \<open>create\<close> gives
  every new entry a sort value, but the record of an item that \<open>select\<close> has added to an
  \<open>o2m\<close> relation has none until its data is fetched. After \<open>select([7])\<close> and
  \<open>create({name: 'new'})\<close> on the parent with three children the condition of sorting
  holds (5 items, limit 25), the comparator answers \<open>NaN\<close> for the selected record against
  every other, and the list comes back as it was built: the created record with sort
  value 1 stands after the fetched record with sort value 3.
\<close>

theorem displayItems_after_select:
  "relation_of example_created_state = Some example_o2m
   \<and> counted_items example_created_state = 5
   \<and> limit (previewQuery example_created_state) = 25
   \<and> sorting_requested example_created_state
   \<and> displayItems example_created_state = Return
     [[(''id'', JNum 2), (''name'', JStr ''b''), (''sort'', JNum 1)],
      [(''id'', JNum 3), (''name'', JStr ''c''), (''sort'', JNum 2)],
      [(''id'', JNum 4), (''name'', JStr ''d''), (''sort'', JNum 3)],
      [(''parent'', JNum 1), (''id'', JNum 7), (''$index'', JNum 0), (''$type'', JStr ''updated'')],
      [(''name'', JStr ''new''), (''sort'', JNum 1), (''$type'', JStr ''created''),
       (''$index'', JNum 0)]]
   \<and> map (sort_number ''sort'')
     [[(''id'', JNum 2), (''name'', JStr ''b''), (''sort'', JNum 1)],
      [(''id'', JNum 3), (''name'', JStr ''c''), (''sort'', JNum 2)],
      [(''id'', JNum 4), (''name'', JStr ''d''), (''sort'', JNum 3)],
      [(''parent'', JNum 1), (''id'', JNum 7), (''$index'', JNum 0), (''$type'', JStr ''updated'')],
      [(''name'', JStr ''new''), (''sort'', JNum 1), (''$type'', JStr ''created''),
       (''$index'', JNum 0)]]
     = [Some 1, Some 2, Some 3, None, Some 1]"
proof -
  have a: "relation_of example_created_state = Some example_o2m" by code_simp
  have n: "counted_items example_created_state = 5" by code_simp
  have l: "limit (previewQuery example_created_state) = 25" by code_simp
  have b: "sorting_requested example_created_state" by code_simp
  have c: "displayItems example_created_state = Return
     [[(''id'', JNum 2), (''name'', JStr ''b''), (''sort'', JNum 1)],
      [(''id'', JNum 3), (''name'', JStr ''c''), (''sort'', JNum 2)],
      [(''id'', JNum 4), (''name'', JStr ''d''), (''sort'', JNum 3)],
      [(''parent'', JNum 1), (''id'', JNum 7), (''$index'', JNum 0), (''$type'', JStr ''updated'')],
      [(''name'', JStr ''new''), (''sort'', JNum 1), (''$type'', JStr ''created''),
       (''$index'', JNum 0)]]" by code_simp
  have d: "map (sort_number ''sort'')
     [[(''id'', JNum 2), (''name'', JStr ''b''), (''sort'', JNum 1)],
      [(''id'', JNum 3), (''name'', JStr ''c''), (''sort'', JNum 2)],
      [(''id'', JNum 4), (''name'', JStr ''d''), (''sort'', JNum 3)],
      [(''parent'', JNum 1), (''id'', JNum 7), (''$index'', JNum 0), (''$type'', JStr ''updated'')],
      [(''name'', JStr ''new''), (''sort'', JNum 1), (''$type'', JStr ''created''),
       (''$index'', JNum 0)]]
     = [Some 1, Some 2, Some 3, None, Some 1]" by code_simp
  show ?thesis by (intro conjI a n l b c d)
qed

section \<open>Cleaned items and \<open>create\<close>\<close>

lemma map_of_filter_key:
  "map_of (filter (\<lambda>p. Q (fst p)) xs) k = (if Q k then map_of xs k else None)"
  by (induction xs) auto

lemma cleanItem_fold:
  "distinct (map fst (acc @ item)) \<Longrightarrow>
   foldl (\<lambda>acc (key, v). if \<not> startsWith_dollar key then obj_set acc key v else acc) acc item
     = acc @ filter (\<lambda>p. \<not> startsWith_dollar (fst p)) item"
proof (induction item arbitrary: acc)
  case Nil
  then show ?case by simp
next
  case (Cons p item)
  obtain k v where p: "p = (k, v)" by (cases p)
  show ?case
  proof (cases "startsWith_dollar k")
    case True
    with Cons p show ?thesis by simp
  next
    case False
    from Cons.prems p have fresh: "k \<notin> set (map fst acc)" by auto
    have d: "distinct (map fst ((acc @ [(k, v)]) @ item))" using Cons.prems p by auto
    show ?thesis using Cons.IH[OF d] False p by (simp add: obj_set_fresh[OF fresh])
  qed
qed

lemma cleanItem_filter:
  "distinct (map fst item) \<Longrightarrow> cleanItem item = filter (\<lambda>p. \<not> startsWith_dollar (fst p)) item"
  unfolding cleanItem_def using cleanItem_fold[of "[]" item] by simp

lemma cleanItem_keys_fold:
  "set (map fst (foldl (\<lambda>acc (key, v). if \<not> startsWith_dollar key then obj_set acc key v else acc) acc item))
     = set (map fst acc) \<union> {k \<in> set (map fst item). \<not> startsWith_dollar k}"
proof (induction item arbitrary: acc)
  case Nil
  then show ?case by simp
next
  case (Cons p item)
  obtain k v where p: "p = (k, v)" by (cases p)
  show ?case
  proof (cases "startsWith_dollar k")
    case True
    show ?thesis using Cons.IH[of acc] True p by auto
  next
    case False
    have "set (map fst (obj_set acc k v)) = insert k (set (map fst acc))"
      by (auto simp: keys_obj_set)
    then show ?thesis using Cons.IH[of "obj_set acc k v"] False p by auto
  qed
qed

lemma cleanItem_keys: "set (map fst (cleanItem item)) = {k \<in> set (map fst item). \<not> startsWith_dollar k}"
  unfolding cleanItem_def using cleanItem_keys_fold[of "[]" item] by simp

lemma dollar_free_cleanItem: "dollar_free (cleanItem item)"
proof -
  have "\<forall>k \<in> set (map fst (cleanItem item)). \<not> startsWith_dollar k"
    unfolding cleanItem_keys by simp
  then show ?thesis by (auto simp: dollar_free_def list_all_iff)
qed

lemma obj_get_cleanItem:
  "distinct (map fst item) \<Longrightarrow>
   obj_get (cleanItem item) k = (if startsWith_dollar k then JUndefined else obj_get item k)"
  by (simp add: cleanItem_filter obj_get_def map_of_filter_key[of "\<lambda>k. \<not> startsWith_dollar k"])

lemma get_value_updateValue: "get_value (updateValue st ch) = ch"
  by (cases ch) (auto simp: updateValue_def reset_def get_value_def no_changes_def Let_def)

text \<open>What \<open>create\<close> stores for an item: the cleaned item, or the cleaned item with a sort
  value set.\<close>

lemma after_push_cases: "after_push st cache = None \<or> after_push st cache = cache"
  by (simp add: after_push_def split: value_ref.splits)

lemma create_loop_Return:
  "create_loop st cache ch items = Return ch' \<Longrightarrow>
   \<exists>news. create_list ch' = create_list ch @ news
     \<and> update_list ch' = update_list ch \<and> delete_list ch' = delete_list ch
     \<and> list_all2 (\<lambda>item e. e = cleanItem item
           \<or> (\<exists>sf v. sort_field st = Some sf \<and> sf \<noteq> [] \<and> isNil (obj_get item sf)
                 \<and> e = cleanItem (obj_set item sf v))) items news"
proof (induction items arbitrary: ch cache)
  case Nil
  then show ?case by simp
next
  case (Cons item items)
  let ?R = "\<lambda>item e. e = cleanItem item
           \<or> (\<exists>sf v. sort_field st = Some sf \<and> sf \<noteq> [] \<and> isNil (obj_get item sf)
                 \<and> e = cleanItem (obj_set item sf v))"
  from Cons.prems obtain e cache' where e: "?R item e"
    and rest: "create_loop st cache' (ch\<lparr>create_list := create_list ch @ [e]\<rparr>) items = Return ch'"
    by (auto simp: bind_Return_iff split: option.splits if_splits)
  from Cons.IH[OF rest] obtain news where
    n: "create_list ch' = (create_list ch @ [e]) @ news" "update_list ch' = update_list ch"
       "delete_list ch' = delete_list ch" "list_all2 ?R items news" by auto
  have "list_all2 ?R (item # items) (e # news)" using e n(4) by simp
  then show ?case using n(1-3) by (intro exI[of _ "e # news"]) simp
qed

lemma bind_Throw_iff:
  "bind m f = Throw e \<longleftrightarrow> m = Throw e \<or> (\<exists>x. m = Return x \<and> f x = Throw e)"
  by (cases m) auto

lemma getSortMax_from_not_Throw: "getSortMax_from m vs \<noteq> Throw e"
  by (induction vs arbitrary: m)
     (auto simp: math_max_def bind_Throw_iff split: option.splits jsval.splits)

lemma totalSortMax_not_Throw: "totalSortMax st \<noteq> Throw e"
  by (auto simp: totalSortMax_def getSortMax_def Let_def getSortMax_from_not_Throw
      split: option.splits)

lemma read_totalSortMax_not_Throw:
  "\<forall>e. cache \<noteq> Some (Throw e) \<Longrightarrow> read_totalSortMax st cache ch \<noteq> Throw e"
  by (cases cache) (auto simp: read_totalSortMax_def totalSortMax_not_Throw)

lemma create_loop_not_Throw:
  "\<forall>e. cache \<noteq> Some (Throw e) \<Longrightarrow> create_loop st cache ch items \<noteq> Throw e"
proof (induction items arbitrary: ch cache)
  case Nil
  then show ?case by simp
next
  case (Cons item items)
  have k: "\<forall>e. after_push st cache \<noteq> Some (Throw e)"
    using Cons.prems after_push_cases[of st cache] by auto
  have m: "\<forall>e. after_push st (Some (Return x)) \<noteq> Some (Throw e)" for x
    using after_push_cases[of st "Some (Return x)"] by auto
  show ?case
    using Cons.IH[OF k] Cons.IH[OF m] read_totalSortMax_not_Throw[OF Cons.prems]
    by (auto simp: bind_Throw_iff split: option.splits)
qed

lemma create_loop_no_sort:
  "sort_field st = None \<Longrightarrow> \<exists>ch'. create_loop st cache ch items = Return ch'"
  by (induction items arbitrary: ch cache) auto

lemma create_no_sort:
  assumes "sort_field st = None"
  shows "\<exists>st'. create st cached items = Return st'"
proof -
  from create_loop_no_sort[OF assms] obtain ch' where
    "create_loop st (if cached then Some (totalSortMax st) else None) (get_value st) items
       = Return ch'" by blast
  then show ?thesis by (simp add: create_def)
qed

lemma math_max_primitive:
  "sort_primitive a \<Longrightarrow> sort_primitive b \<Longrightarrow> \<exists>r. math_max a b = Return r \<and> sort_primitive r"
  by (cases a; cases b) (auto simp: math_max_def sort_primitive_def)

lemma getSortMax_from_primitive:
  "sort_primitive m \<Longrightarrow> list_all sort_primitive vs \<Longrightarrow>
   \<exists>r. getSortMax_from m vs = Return r \<and> sort_primitive r"
proof (induction vs arbitrary: m)
  case Nil
  then show ?case by simp
next
  case (Cons v vs)
  from Cons.prems have v: "sort_primitive v" and vs: "list_all sort_primitive vs" by auto
  show ?case
  proof (cases "m = JNull")
    case True
    then show ?thesis using Cons.IH[OF v vs] by simp
  next
    case mn: False
    show ?thesis
    proof (cases "v = JNull")
      case True
      then show ?thesis using Cons.IH[OF Cons.prems(1) vs] mn by simp
    next
      case False
      from math_max_primitive[OF Cons.prems(1) v] obtain r where
        r: "math_max m v = Return r" "sort_primitive r" by blast
      show ?thesis using Cons.IH[OF r(2) vs] r(1) mn False by simp
    qed
  qed
qed

lemma next_sort_primitive: "sort_primitive m \<Longrightarrow> sort_primitive (next_sort m)"
  by (cases m) (auto simp: next_sort_def sort_primitive_def)

lemma tagged_sort_values:
  assumes "\<not> startsWith_dollar sf"
  shows "map (\<lambda>e. obj_get e sf) (tag_entries t items) = map (\<lambda>e. obj_get e sf) items"
  using startsWith_dollar_neq[OF assms] by (simp add: tag_entries_keep)

lemma totalSortMax_primitive:
  assumes sf: "sort_field st = Some sf" "sf \<noteq> []" "\<not> startsWith_dollar sf"
    and ex: "sort_primitive (existingSortMax st)"
    and cr: "\<forall>e \<in> set (create_list ch). sort_primitive (obj_get e sf)"
    and up: "\<forall>e \<in> set (update_list ch). sort_primitive (obj_get e sf)"
  shows "\<exists>r. totalSortMax (st\<lparr>value_of := VChanges ch\<rparr>) = Return r \<and> sort_primitive r"
proof -
  let ?st = "st\<lparr>value_of := VChanges ch\<rparr>"
  have g: "get_value ?st = ch" by (simp add: get_value_def)
  have s: "sort_field ?st = Some sf" using sf(1) by (simp add: sort_field_def)
  have c: "list_all sort_primitive (map (\<lambda>v. obj_get v sf) (create_list ch))"
    using cr by (simp add: list_all_iff)
  have "set (map (\<lambda>v. obj_get v sf) (selected ?st))
          \<subseteq> set (map (\<lambda>v. obj_get v sf) (tag_entries ''updated'' (update_list ch)))
            \<union> set (map (\<lambda>v. obj_get v sf) (tag_entries ''created'' (create_list ch)))"
    by (auto simp: selected_def g split: option.splits if_splits)
  then have "set (map (\<lambda>v. obj_get v sf) (selected ?st))
          \<subseteq> set (map (\<lambda>v. obj_get v sf) (update_list ch))
            \<union> set (map (\<lambda>v. obj_get v sf) (create_list ch))"
    unfolding tagged_sort_values[OF sf(3)] .
  then have sl: "list_all sort_primitive (map (\<lambda>v. obj_get v sf) (selected ?st))"
    using cr up by (auto simp: list_all_iff)
  have inp: "list_all sort_primitive (sort_inputs ?st sf)"
    using ex c sl by (simp add: sort_inputs_def g)
  have "totalSortMax ?st = getSortMax (sort_inputs ?st sf)"
    by (rule totalSortMax_inputs[OF s sf(2)])
  moreover have "\<exists>r. getSortMax_from JNull (sort_inputs ?st sf) = Return r \<and> sort_primitive r"
    by (rule getSortMax_from_primitive[OF _ inp]) (simp add: sort_primitive_def)
  ultimately show ?thesis by (simp add: getSortMax_def)
qed

lemma totalSortMax_get_value: "totalSortMax (st\<lparr>value_of := VChanges (get_value st)\<rparr>) = totalSortMax st"
proof -
  let ?st = "st\<lparr>value_of := VChanges (get_value st)\<rparr>"
  have g: "get_value ?st = get_value st" by (simp add: get_value_def)
  have i: "isItemSelected ?st = isItemSelected st" by (auto simp: isItemSelected_def)
  have s: "selected ?st = selected st" unfolding selected_def g i by simp
  have f: "sort_field ?st = sort_field st" by (simp add: sort_field_def)
  show ?thesis by (cases "sort_field st") (auto simp: totalSortMax_def f g s Let_def)
qed

lemma create_loop_returns:
  assumes sf: "sort_field st = Some sf" "\<not> startsWith_dollar sf"
    and ex: "sort_primitive (existingSortMax st)"
    and up: "\<forall>e \<in> set (update_list ch). sort_primitive (obj_get e sf)"
  shows "\<forall>e \<in> set (create_list ch). sort_primitive (obj_get e sf) \<Longrightarrow>
         \<forall>item \<in> set items. distinct (map fst item) \<and> sort_primitive (obj_get item sf) \<Longrightarrow>
         \<forall>held. cache = Some held \<longrightarrow> (\<exists>m. held = Return m \<and> sort_primitive m) \<Longrightarrow>
         \<exists>ch'. create_loop st cache ch items = Return ch'"
  using up
proof (induction items arbitrary: ch cache)
  case Nil
  then show ?case by simp
next
  case (Cons item items)
  from Cons.prems(2) have it: "distinct (map fst item)" "sort_primitive (obj_get item sf)"
    and rest: "\<forall>item \<in> set items. distinct (map fst item) \<and> sort_primitive (obj_get item sf)"
    by auto
  have keep: "\<forall>held. after_push st c = Some held \<longrightarrow> (\<exists>m. held = Return m \<and> sort_primitive m)"
    if "\<forall>held. c = Some held \<longrightarrow> (\<exists>m. held = Return m \<and> sort_primitive m)" for c
    using that after_push_cases[of st c] by auto
  show ?case
  proof (cases "sf \<noteq> [] \<and> isNil (obj_get item sf)")
    case True
    have "\<exists>m. read_totalSortMax st cache ch = Return m \<and> sort_primitive m"
    proof (cases cache)
      case None
      then show ?thesis
        using totalSortMax_primitive[OF sf(1) _ sf(2) ex Cons.prems(1) Cons.prems(4)] True
        by (simp add: read_totalSortMax_def)
    next
      case (Some held)
      then show ?thesis using Cons.prems(3) by (simp add: read_totalSortMax_def)
    qed
    then obtain m where m: "read_totalSortMax st cache ch = Return m" "sort_primitive m"
      by blast
    let ?e = "cleanItem (obj_set item sf (next_sort m))"
    let ?ch = "ch\<lparr>create_list := create_list ch @ [?e]\<rparr>"
    have v: "obj_get ?e sf = next_sort m"
      using sf(2) it(1) by (simp add: obj_get_cleanItem distinct_obj_set obj_get_obj_set)
    have c: "\<forall>e \<in> set (create_list ?ch). sort_primitive (obj_get e sf)"
      using Cons.prems(1) v next_sort_primitive[OF m(2)] by auto
    have u: "\<forall>e \<in> set (update_list ?ch). sort_primitive (obj_get e sf)"
      using Cons.prems(4) by simp
    have k: "\<forall>held. after_push st (Some (Return m)) = Some held \<longrightarrow>
               (\<exists>m. held = Return m \<and> sort_primitive m)"
      by (rule keep) (simp add: m(2))
    from Cons.IH[OF c rest k u] show ?thesis using True m(1) sf(1) by simp
  next
    case False
    let ?e = "cleanItem item"
    let ?ch = "ch\<lparr>create_list := create_list ch @ [?e]\<rparr>"
    have v: "obj_get ?e sf = obj_get item sf"
      using sf(2) it(1) by (simp add: obj_get_cleanItem)
    have c: "\<forall>e \<in> set (create_list ?ch). sort_primitive (obj_get e sf)"
      using Cons.prems(1) v it(2) by auto
    have u: "\<forall>e \<in> set (update_list ?ch). sort_primitive (obj_get e sf)"
      using Cons.prems(4) by simp
    from Cons.IH[OF c rest keep[OF Cons.prems(3)] u] show ?thesis using False sf(1) by auto
  qed
qed

lemma create_returns:
  assumes sf: "sort_field st = Some sf" "\<not> startsWith_dollar sf"
    and pr: "sort_values_primitive st sf"
    and it: "\<forall>item \<in> set items. distinct (map fst item) \<and> sort_primitive (obj_get item sf)"
  shows "\<exists>st'. create st cached items = Return st'"
proof -
  from pr have ex: "sort_primitive (existingSortMax st)"
    and cr: "\<forall>e \<in> set (create_list (get_value st)). sort_primitive (obj_get e sf)"
    and up: "\<forall>e \<in> set (update_list (get_value st)). sort_primitive (obj_get e sf)"
    by (auto simp: sort_values_primitive_def list_all_iff)
  let ?cache = "if cached then Some (totalSortMax st) else None"
  have k: "\<forall>held. ?cache = Some held \<longrightarrow> (\<exists>m. held = Return m \<and> sort_primitive m)"
  proof (cases "sf = []")
    case True
    then show ?thesis using sf(1) by (simp add: totalSortMax_def sort_primitive_def)
  next
    case False
    from totalSortMax_primitive[OF sf(1) False sf(2) ex cr up]
    show ?thesis by (simp add: totalSortMax_get_value)
  qed
  from create_loop_returns[OF sf ex up cr it k] show ?thesis by (auto simp: create_def)
qed

text \<open>
  Two items created in one call while \<open>value\<close> is an array get the same sort value, since
  \<open>totalSortMax\<close> is evaluated once; on a changes object the second gets the next one.
\<close>

lemma create_two_items_example:
  "create example_parent False [[(''name'', JStr ''a'')], [(''name'', JStr ''b'')]]
     = Return (example_parent\<lparr>value_of := VChanges
         \<lparr>create_list = [[(''name'', JStr ''a''), (''sort'', JNum 4)],
                          [(''name'', JStr ''b''), (''sort'', JNum 4)]],
          update_list = [], delete_list = []\<rparr>\<rparr>)
   \<and> create (example_parent\<lparr>value_of := VChanges
         \<lparr>create_list = [], update_list = [], delete_list = [JNum 2]\<rparr>\<rparr>) False
       [[(''name'', JStr ''a'')], [(''name'', JStr ''b'')]]
     = Return (example_parent\<lparr>value_of := VChanges
         \<lparr>create_list = [[(''name'', JStr ''a''), (''sort'', JNum 4)],
                          [(''name'', JStr ''b''), (''sort'', JNum 5)]],
          update_list = [], delete_list = [JNum 2]\<rparr>\<rparr>)"
  by code_simp

text \<open>
  C8. For an item (an object: no key twice), \<open>cleanItem\<close> returns the item's properties
  whose keys do not begin with \<open>$\<close>, each with the same value, and nothing else. \<open>create\<close>,
  whether or not \<open>totalSortMax\<close> holds a value when it starts, never throws; when it returns, the create list has grown by one entry per item, every new
  entry is free of \<open>$\<close>-prefixed keys, and if the entries of the create list were free of
  them before, all are afterwards. \<open>create\<close> returns whenever there is no sort field, and
  also with a sort field (not \<open>$\<close>-prefixed) when the items are objects and no sort value
  involved is a string or an object.
\<close>

theorem cleanItem_create_cleaned:
  "(distinct (map fst item) \<longrightarrow>
      cleanItem item = filter (\<lambda>p. \<not> startsWith_dollar (fst p)) item
      \<and> (\<forall>k. obj_get (cleanItem item) k = (if startsWith_dollar k then JUndefined else obj_get item k)))
   \<and> set (map fst (cleanItem item)) = {k \<in> set (map fst item). \<not> startsWith_dollar k}
   \<and> (create st cached items = Return st' \<longrightarrow>
        (\<exists>news. length news = length items \<and> list_all dollar_free news
           \<and> create_list (get_value st') = create_list (get_value st) @ news)
        \<and> (list_all dollar_free (create_list (get_value st)) \<longrightarrow>
             list_all dollar_free (create_list (get_value st'))))
   \<and> create st cached items \<noteq> Throw e
   \<and> (sort_field st = None \<longrightarrow> (\<exists>st''. create st cached items = Return st''))
   \<and> (sort_field st = Some sf \<and> \<not> startsWith_dollar sf \<and> sort_values_primitive st sf
        \<and> (\<forall>item \<in> set items. distinct (map fst item) \<and> sort_primitive (obj_get item sf)) \<longrightarrow>
        (\<exists>st''. create st cached items = Return st''))"
proof -
  have a: "distinct (map fst item) \<longrightarrow>
      cleanItem item = filter (\<lambda>p. \<not> startsWith_dollar (fst p)) item
      \<and> (\<forall>k. obj_get (cleanItem item) k = (if startsWith_dollar k then JUndefined else obj_get item k))"
    using cleanItem_filter obj_get_cleanItem by blast
  have b: "set (map fst (cleanItem item)) = {k \<in> set (map fst item). \<not> startsWith_dollar k}"
    by (rule cleanItem_keys)
  have c: "(\<exists>news. length news = length items \<and> list_all dollar_free news
           \<and> create_list (get_value st') = create_list (get_value st) @ news)
        \<and> (list_all dollar_free (create_list (get_value st)) \<longrightarrow>
             list_all dollar_free (create_list (get_value st')))"
    if r: "create st cached items = Return st'"
  proof -
    from r obtain ch' where
      l: "create_loop st (if cached then Some (totalSortMax st) else None) (get_value st) items
            = Return ch'"
      and st': "st' = updateValue st ch'"
      by (auto simp: create_def bind_Return_iff)
    from create_loop_Return[OF l] obtain news where
      n: "create_list ch' = create_list (get_value st) @ news"
      and rel: "list_all2 (\<lambda>item e. e = cleanItem item
           \<or> (\<exists>sf v. sort_field st = Some sf \<and> sf \<noteq> [] \<and> isNil (obj_get item sf)
                 \<and> e = cleanItem (obj_set item sf v))) items news" by blast
    have len: "length news = length items" using rel by (simp add: list_all2_lengthD)
    have "\<forall>e \<in> set news. dollar_free e"
    proof
      fix e assume "e \<in> set news"
      then obtain i where "i < length news" "news ! i = e" by (auto simp: in_set_conv_nth)
      with rel len have "\<exists>x. e = cleanItem x"
        by (auto simp: list_all2_conv_all_nth)
      then show "dollar_free e" using dollar_free_cleanItem by auto
    qed
    then have df: "list_all dollar_free news" by (simp add: list_all_iff)
    have g: "create_list (get_value st') = create_list (get_value st) @ news"
      using n st' by (simp add: get_value_updateValue)
    show ?thesis using len df g by auto
  qed
  have d: "create st cached items \<noteq> Throw e"
  proof -
    have "\<forall>e. (if cached then Some (totalSortMax st) else None) \<noteq> Some (Throw e)"
      by (simp add: totalSortMax_not_Throw)
    from create_loop_not_Throw[OF this] show ?thesis
      by (auto simp: create_def bind_Throw_iff)
  qed
  have f: "sort_field st = None \<longrightarrow> (\<exists>st''. create st cached items = Return st'')"
    using create_no_sort[of st cached items] by blast
  have g: "sort_field st = Some sf \<and> \<not> startsWith_dollar sf \<and> sort_values_primitive st sf
        \<and> (\<forall>item \<in> set items. distinct (map fst item) \<and> sort_primitive (obj_get item sf)) \<longrightarrow>
        (\<exists>st''. create st cached items = Return st'')"
    using create_returns[of st sf items cached] by blast
  show ?thesis using a b c d f g by blast
qed

theorem cleanItem_create_cleaned_witness:
  "distinct (map fst [(''name'', JStr ''x''), (''$index'', JNum 4)])
   \<and> cleanItem [(''name'', JStr ''x''), (''$index'', JNum 4)] = [(''name'', JStr ''x'')]
   \<and> create (example_state\<lparr>value_of := VArray []\<rparr>) False [[(''name'', JStr ''x''), (''$index'', JNum 4)]]
       = Return (example_state\<lparr>value_of := VChanges
           \<lparr>create_list = [[(''name'', JStr ''x''), (''sort'', JNum 4)]],
            update_list = [], delete_list = []\<rparr>\<rparr>)
   \<and> list_all dollar_free (create_list (get_value (example_state\<lparr>value_of := VArray []\<rparr>)))
   \<and> list_all dollar_free (create_list (get_value (example_state\<lparr>value_of := VChanges
           \<lparr>create_list = [[(''name'', JStr ''x''), (''sort'', JNum 4)]],
            update_list = [], delete_list = []\<rparr>\<rparr>)))
   \<and> sort_field (example_state\<lparr>relation_of := None\<rparr>) = None
   \<and> (\<exists>st''. create (example_state\<lparr>relation_of := None\<rparr>) False
                [[(''name'', JStr ''x''), (''$index'', JNum 4)]] = Return st'')
   \<and> sort_field example_state = Some ''sort'' \<and> \<not> startsWith_dollar ''sort''
   \<and> sort_values_primitive example_state ''sort''
   \<and> sort_primitive (obj_get [(''name'', JStr ''x''), (''$index'', JNum 4)] ''sort'')
   \<and> (\<exists>st''. create example_state True [[(''name'', JStr ''x''), (''$index'', JNum 4)]] = Return st'')"
proof -
  let ?item = "[(''name'', JStr ''x''), (''$index'', JNum 4)]"
  let ?s0 = "example_state\<lparr>value_of := VArray []\<rparr>"
  let ?s1 = "example_state\<lparr>value_of := VChanges
           \<lparr>create_list = [[(''name'', JStr ''x''), (''sort'', JNum 4)]],
            update_list = [], delete_list = []\<rparr>\<rparr>"
  let ?n = "example_state\<lparr>relation_of := None\<rparr>"
  have d: "distinct (map fst ?item)" by simp
  have r: "create ?s0 False [?item] = Return ?s1" by code_simp
  have f0: "list_all dollar_free (create_list (get_value ?s0))" by code_simp
  have n: "sort_field ?n = None" by (simp add: sort_field_def)
  have c: "filter (\<lambda>p. \<not> startsWith_dollar (fst p)) ?item = [(''name'', JStr ''x'')]" by simp
  note t = cleanItem_create_cleaned[where item = ?item and st = ?s0 and cached = False
      and items = "[?item]" and st' = ?s1]
  note u = cleanItem_create_cleaned[where item = ?item and st = ?n and cached = False
      and items = "[?item]"]
  have 1: "cleanItem ?item = [(''name'', JStr ''x'')]" using t d c by metis
  have 2: "list_all dollar_free (create_list (get_value ?s1))" using t r f0 by blast
  have 3: "\<exists>st''. create ?n False [?item] = Return st''" using u n by blast
  have sf: "sort_field example_state = Some ''sort''"
    by (simp add: sort_field_def example_state_def example_o2m_def)
  have nd: "\<not> startsWith_dollar ''sort''" by simp
  have pr: "sort_values_primitive example_state ''sort''" by code_simp
  have sp: "sort_primitive (obj_get ?item ''sort'')" by code_simp
  have 4: "\<exists>st''. create example_state True [?item] = Return st''"
    using cleanItem_create_cleaned[where st = example_state and sf = "''sort''" and cached = True
        and items = "[?item]"]
      sf nd pr sp d by simp
  show ?thesis using d 1 r f0 2 n 3 sf nd pr sp 4 by blast
qed

section \<open>Selecting existing items\<close>

lemma map_outcome_Return:
  "(\<And>x. x \<in> set xs \<Longrightarrow> f x = Return (g x)) \<Longrightarrow> map_outcome f xs = Return (map g xs)"
  by (induction xs) auto

lemma map_outcome_Throw:
  "xs \<noteq> [] \<Longrightarrow> (\<And>x. f x = Throw e) \<Longrightarrow> map_outcome f xs = Throw e"
  by (cases xs) auto

lemma update_loop_push:
  "(\<And>item. item \<in> set items \<Longrightarrow>
      obj_get item ''$type'' = JUndefined \<or> obj_get item ''$index'' = JUndefined) \<Longrightarrow>
   update_loop ch items = Return (ch\<lparr>update_list := update_list ch @ items\<rparr>)"
proof (induction items arbitrary: ch)
  case Nil
  then show ?case by simp
next
  case (Cons item items)
  have h: "obj_get item ''$type'' = JUndefined \<or> obj_get item ''$index'' = JUndefined"
    using Cons.prems by simp
  have "update_loop (ch\<lparr>update_list := update_list ch @ [item]\<rparr>) items
        = Return (ch\<lparr>update_list := update_list ch @ [item]\<rparr>
                    \<lparr>update_list := update_list (ch\<lparr>update_list := update_list ch @ [item]\<rparr>) @ items\<rparr>)"
    by (rule Cons.IH) (use Cons.prems in auto)
  then show ?case using h by auto
qed

lemma select_o2m:
  assumes rel: "relation_of st = Some (RelationO2M sfo rjf rpk)"
    and nd: "\<not> startsWith_dollar rjf" "\<not> startsWith_dollar rpk" and ne: "rjf \<noteq> rpk"
  shows "\<exists>st'. select st cached ids collection = Return st'
           \<and> update_list (get_value st')
              = update_list (get_value st) @ map (\<lambda>id. [(rjf, itemId st), (rpk, id)]) ids
           \<and> create_list (get_value st') = create_list (get_value st)
           \<and> delete_list (get_value st') = delete_list (get_value st)"
proof -
  let ?g = "\<lambda>id. [(rjf, itemId st), (rpk, id)]"
  have m: "map_outcome (select_entry (RelationO2M sfo rjf rpk) (itemId st) collection) ids
            = Return (map ?g ids)"
    by (rule map_outcome_Return) (use ne in simp)
  have u: "update_loop (get_value st) (map ?g ids)
            = Return ((get_value st)\<lparr>update_list := update_list (get_value st) @ map ?g ids\<rparr>)"
  proof (rule update_loop_push)
    fix item assume "item \<in> set (map ?g ids)"
    then obtain id where "item = ?g id" by auto
    then have "obj_get item ''$index'' = JUndefined"
      using startsWith_dollar_neq[OF nd(1)] startsWith_dollar_neq[OF nd(2)]
      by (auto simp: obj_get_def)
    then show "obj_get item ''$type'' = JUndefined \<or> obj_get item ''$index'' = JUndefined" ..
  qed
  have "select st cached ids collection
          = Return (updateValue st ((get_value st)\<lparr>update_list := update_list (get_value st) @ map ?g ids\<rparr>))"
    using rel m u by (simp add: select_def update_def)
  then show ?thesis by (simp add: get_value_updateValue)
qed

lemma select_create_entries:
  assumes rel: "relation_of st = Some info" and ty: "type_of info \<noteq> O2M"
    and m: "map_outcome (select_entry info (itemId st) collection) ids = Return (map g ids)"
    and r: "select st cached ids collection = Return st'"
  shows "\<exists>news. create_list (get_value st') = create_list (get_value st) @ news
           \<and> update_list (get_value st') = update_list (get_value st)
           \<and> delete_list (get_value st') = delete_list (get_value st)
           \<and> length news = length ids
           \<and> (\<forall>i < length ids.
                  news ! i = cleanItem (g (ids ! i))
                  \<or> (\<exists>sf v. sort_field st = Some sf \<and> sf \<noteq> [] \<and> isNil (obj_get (g (ids ! i)) sf)
                        \<and> news ! i = cleanItem (obj_set (g (ids ! i)) sf v)))"
proof -
  from r rel ty m have c: "create st cached (map g ids) = Return st'" by (simp add: select_def)
  then obtain ch' where
    l: "create_loop st (if cached then Some (totalSortMax st) else None) (get_value st) (map g ids)
          = Return ch'"
    and st': "st' = updateValue st ch'"
    by (auto simp: create_def bind_Return_iff)
  from create_loop_Return[OF l] obtain news where
      n: "create_list ch' = create_list (get_value st) @ news"
         "update_list ch' = update_list (get_value st)" "delete_list ch' = delete_list (get_value st)"
      and rl: "list_all2 (\<lambda>item e. e = cleanItem item
           \<or> (\<exists>sf v. sort_field st = Some sf \<and> sf \<noteq> [] \<and> isNil (obj_get item sf)
                 \<and> e = cleanItem (obj_set item sf v))) (map g ids) news" by blast
  have len: "length news = length ids" using rl by (auto dest: list_all2_lengthD)
  have "\<forall>i < length ids.
                  news ! i = cleanItem (g (ids ! i))
                  \<or> (\<exists>sf v. sort_field st = Some sf \<and> sf \<noteq> [] \<and> isNil (obj_get (g (ids ! i)) sf)
                        \<and> news ! i = cleanItem (obj_set (g (ids ! i)) sf v))"
    using rl len by (auto simp: list_all2_conv_all_nth)
  then show ?thesis using n len st' by (auto simp: get_value_updateValue)
qed

text \<open>A property with a key that is no bookkeeping key and a value that is not nil survives
  what \<open>create\<close> does to an item.\<close>

lemma created_keeps:
  assumes e: "e = cleanItem item
           \<or> (\<exists>sf v. sort_field st = Some sf \<and> sf \<noteq> [] \<and> isNil (obj_get item sf)
                 \<and> e = cleanItem (obj_set item sf v))"
    and d: "distinct (map fst item)" and k: "\<not> startsWith_dollar k" and v: "\<not> isNil (obj_get item k)"
  shows "obj_get e k = obj_get item k"
proof -
  from e show ?thesis
  proof
    assume "e = cleanItem item"
    then show ?thesis using d k by (simp add: obj_get_cleanItem)
  next
    assume "\<exists>sf v. sort_field st = Some sf \<and> sf \<noteq> [] \<and> isNil (obj_get item sf)
                 \<and> e = cleanItem (obj_set item sf v)"
    then obtain sf w where s: "isNil (obj_get item sf)" "e = cleanItem (obj_set item sf w)" by blast
    have "sf \<noteq> k" using s(1) v by auto
    then show ?thesis using s(2) d k
      by (simp add: obj_get_cleanItem distinct_obj_set obj_get_obj_set)
  qed
qed

lemma select_no_sort_returns:
  assumes rel: "relation_of st = Some info" and ty: "type_of info \<noteq> O2M"
    and m: "map_outcome (select_entry info (itemId st) collection) ids = Return sel"
    and s: "sortField info = None"
  shows "\<exists>st'. select st cached ids collection = Return st'"
proof -
  have "sort_field st = None" using rel s by (simp add: sort_field_def)
  from create_no_sort[OF this, of cached sel]
  show ?thesis using rel ty m by (auto simp: select_def)
qed

lemma select_sorted_returns:
  assumes rel: "relation_of st = Some info" and ty: "type_of info \<noteq> O2M"
    and m: "map_outcome (select_entry info (itemId st) collection) ids = Return (map g ids)"
    and s: "sortField info = Some sf" "\<not> startsWith_dollar sf"
    and pr: "sort_values_primitive st sf"
    and g: "\<And>id. distinct (map fst (g id)) \<and> sort_primitive (obj_get (g id) sf)"
  shows "\<exists>st'. select st cached ids collection = Return st'"
proof -
  have sf: "sort_field st = Some sf" using rel s(1) by (simp add: sort_field_def)
  have "\<forall>item \<in> set (map g ids). distinct (map fst item) \<and> sort_primitive (obj_get item sf)"
    using g by auto
  from create_returns[OF sf s(2) pr this, of cached]
  show ?thesis using rel ty m by (simp add: select_def)
qed

text \<open>
  C7. \<open>select\<close> with a list of ids, for relations whose field names are ordinary (not
  \<open>$\<close>-prefixed, and distinct where two of them are set in one object). For \<open>o2m\<close> the call
  returns and has appended to the update list, for each id in order, the entry with the
  reverse-junction field set to the current item id and the related primary-key field set
  to the id. For \<open>m2m\<close> every id is recorded as a new entry of the create list that nests
  the id under the junction field at the related primary-key field. For \<open>m2a\<close>, with a
  collection that has a primary-key field, every id is recorded as a new entry of the
  create list that holds the collection under the collection field and nests the id under
  the junction field at that collection's primary-key field. For \<open>m2m\<close> and \<open>m2a\<close> the call
  returns whenever there is no sort field, and also with a sort field of its own (not
  \<open>$\<close>-prefixed, none of the fields set) when no sort value involved is a string or an
  object.
\<close>

theorem select_records:
  "(relation_of st = Some (RelationO2M sfo rjf rpk)
      \<and> \<not> startsWith_dollar rjf \<and> \<not> startsWith_dollar rpk \<and> rjf \<noteq> rpk \<longrightarrow>
      (\<exists>st'. select st cached ids collection = Return st'
         \<and> update_list (get_value st')
            = update_list (get_value st) @ map (\<lambda>id. [(rjf, itemId st), (rpk, id)]) ids
         \<and> create_list (get_value st') = create_list (get_value st)
         \<and> delete_list (get_value st') = delete_list (get_value st)))
   \<and> (relation_of st = Some (RelationM2M sfo rjf rpk jpk jf) \<and> \<not> startsWith_dollar jf \<longrightarrow>
        (sfo = None \<longrightarrow> (\<exists>st''. select st cached ids collection = Return st''))
        \<and> (sfo = Some sf \<and> \<not> startsWith_dollar sf \<and> sf \<noteq> rjf \<and> sf \<noteq> jf
             \<and> sort_values_primitive st sf \<longrightarrow>
             (\<exists>st''. select st cached ids collection = Return st''))
        \<and> (select st cached ids collection = Return st' \<longrightarrow>
             (\<exists>news. create_list (get_value st') = create_list (get_value st) @ news
                \<and> update_list (get_value st') = update_list (get_value st)
                \<and> delete_list (get_value st') = delete_list (get_value st)
                \<and> length news = length ids
                \<and> (\<forall>i < length ids. obj_get (news ! i) jf = JObj [(rpk, ids ! i)]))))
   \<and> (relation_of st = Some (RelationM2A sfo rjf jpk jf cf rpkf allowed)
        \<and> collection = Some c \<and> c \<noteq> [] \<and> map_of rpkf c = Some pkf
        \<and> \<not> startsWith_dollar jf \<and> \<not> startsWith_dollar cf \<and> cf \<noteq> jf \<longrightarrow>
        (sfo = None \<longrightarrow> (\<exists>st''. select st cached ids collection = Return st''))
        \<and> (sfo = Some sf \<and> \<not> startsWith_dollar sf \<and> sf \<noteq> rjf \<and> sf \<noteq> jf \<and> sf \<noteq> cf
             \<and> sort_values_primitive st sf \<longrightarrow>
             (\<exists>st''. select st cached ids collection = Return st''))
        \<and> (select st cached ids collection = Return st' \<longrightarrow>
             (\<exists>news. create_list (get_value st') = create_list (get_value st) @ news
                \<and> update_list (get_value st') = update_list (get_value st)
                \<and> delete_list (get_value st') = delete_list (get_value st)
                \<and> length news = length ids
                \<and> (\<forall>i < length ids. obj_get (news ! i) cf = JStr c
                                      \<and> obj_get (news ! i) jf = JObj [(pkf, ids ! i)]))))"
proof (intro conjI impI)
  assume "relation_of st = Some (RelationO2M sfo rjf rpk)
      \<and> \<not> startsWith_dollar rjf \<and> \<not> startsWith_dollar rpk \<and> rjf \<noteq> rpk"
  then show "\<exists>st'. select st cached ids collection = Return st'
         \<and> update_list (get_value st')
            = update_list (get_value st) @ map (\<lambda>id. [(rjf, itemId st), (rpk, id)]) ids
         \<and> create_list (get_value st') = create_list (get_value st)
         \<and> delete_list (get_value st') = delete_list (get_value st)"
    using select_o2m[of st sfo rjf rpk cached ids collection] by blast
next
  let ?info = "RelationM2M sfo rjf rpk jpk jf"
  let ?g = "\<lambda>id. obj_set (obj_set [] rjf (itemId st)) jf (JObj [(rpk, id)])"
  assume a: "relation_of st = Some ?info \<and> \<not> startsWith_dollar jf"
  have m: "map_outcome (select_entry ?info (itemId st) collection) ids = Return (map ?g ids)"
    by (rule map_outcome_Return) simp
  {
    assume "sfo = None"
    then show "\<exists>st''. select st cached ids collection = Return st''"
      using select_no_sort_returns[OF _ _ m] a by simp
  }
  {
    assume b: "sfo = Some sf \<and> \<not> startsWith_dollar sf \<and> sf \<noteq> rjf \<and> sf \<noteq> jf
             \<and> sort_values_primitive st sf"
    have "distinct (map fst (?g id)) \<and> sort_primitive (obj_get (?g id) sf)" for id
      using b by (simp add: distinct_obj_set obj_get_obj_set obj_get_def sort_primitive_def)
    from select_sorted_returns[OF _ _ m _ _ _ this] a b
    show "\<exists>st''. select st cached ids collection = Return st''" by simp
  }
  {
    assume r: "select st cached ids collection = Return st'"
    from select_create_entries[OF _ _ m r] a obtain news where
      n: "create_list (get_value st') = create_list (get_value st) @ news"
         "update_list (get_value st') = update_list (get_value st)"
         "delete_list (get_value st') = delete_list (get_value st)"
         "length news = length ids"
      and e: "\<forall>i < length ids.
                  news ! i = cleanItem (?g (ids ! i))
                  \<or> (\<exists>sf v. sort_field st = Some sf \<and> sf \<noteq> [] \<and> isNil (obj_get (?g (ids ! i)) sf)
                        \<and> news ! i = cleanItem (obj_set (?g (ids ! i)) sf v))"
      by auto
    have "\<forall>i < length ids. obj_get (news ! i) jf = JObj [(rpk, ids ! i)]"
    proof (intro allI impI)
      fix i assume i: "i < length ids"
      have d: "distinct (map fst (?g (ids ! i)))" by (simp add: distinct_obj_set)
      have v: "obj_get (?g (ids ! i)) jf = JObj [(rpk, ids ! i)]" by (auto simp: obj_get_def)
      have nn: "\<not> isNil (obj_get (?g (ids ! i)) jf)" unfolding v by (simp add: isNil_def)
      from created_keeps[OF e[rule_format, OF i] d _ nn] a v
      show "obj_get (news ! i) jf = JObj [(rpk, ids ! i)]" by simp
    qed
    then show "\<exists>news. create_list (get_value st') = create_list (get_value st) @ news
                \<and> update_list (get_value st') = update_list (get_value st)
                \<and> delete_list (get_value st') = delete_list (get_value st)
                \<and> length news = length ids
                \<and> (\<forall>i < length ids. obj_get (news ! i) jf = JObj [(rpk, ids ! i)])"
      using n by blast
  }
next
  let ?info = "RelationM2A sfo rjf jpk jf cf rpkf allowed"
  let ?g = "\<lambda>id. obj_set (obj_set (obj_set [] rjf (itemId st)) cf (JStr c)) jf (JObj [(pkf, id)])"
  assume a: "relation_of st = Some ?info
        \<and> collection = Some c \<and> c \<noteq> [] \<and> map_of rpkf c = Some pkf
        \<and> \<not> startsWith_dollar jf \<and> \<not> startsWith_dollar cf \<and> cf \<noteq> jf"
  have m: "map_outcome (select_entry ?info (itemId st) collection) ids = Return (map ?g ids)"
    by (rule map_outcome_Return) (use a in simp)
  {
    assume "sfo = None"
    then show "\<exists>st''. select st cached ids collection = Return st''"
      using select_no_sort_returns[OF _ _ m] a by simp
  }
  {
    assume b: "sfo = Some sf \<and> \<not> startsWith_dollar sf \<and> sf \<noteq> rjf \<and> sf \<noteq> jf \<and> sf \<noteq> cf
             \<and> sort_values_primitive st sf"
    have "distinct (map fst (?g id)) \<and> sort_primitive (obj_get (?g id) sf)" for id
      using b by (simp add: distinct_obj_set obj_get_obj_set obj_get_def sort_primitive_def)
    from select_sorted_returns[OF _ _ m _ _ _ this] a b
    show "\<exists>st''. select st cached ids collection = Return st''" by simp
  }
  {
    assume r: "select st cached ids collection = Return st'"
    from select_create_entries[OF _ _ m r] a obtain news where
      n: "create_list (get_value st') = create_list (get_value st) @ news"
         "update_list (get_value st') = update_list (get_value st)"
         "delete_list (get_value st') = delete_list (get_value st)"
         "length news = length ids"
      and e: "\<forall>i < length ids.
                  news ! i = cleanItem (?g (ids ! i))
                  \<or> (\<exists>sf v. sort_field st = Some sf \<and> sf \<noteq> [] \<and> isNil (obj_get (?g (ids ! i)) sf)
                        \<and> news ! i = cleanItem (obj_set (?g (ids ! i)) sf v))"
      by auto
    have "\<forall>i < length ids. obj_get (news ! i) cf = JStr c
                                      \<and> obj_get (news ! i) jf = JObj [(pkf, ids ! i)]"
    proof (intro allI impI)
      fix i assume i: "i < length ids"
      have d: "distinct (map fst (?g (ids ! i)))" by (simp add: distinct_obj_set)
      have v: "obj_get (?g (ids ! i)) jf = JObj [(pkf, ids ! i)]" by (auto simp: obj_get_def)
      have w: "obj_get (?g (ids ! i)) cf = JStr c" using a by (auto simp: obj_get_def)
      have nn: "\<not> isNil (obj_get (?g (ids ! i)) jf)" "\<not> isNil (obj_get (?g (ids ! i)) cf)"
        unfolding v w by (simp_all add: isNil_def)
      from created_keeps[OF e[rule_format, OF i] d _ nn(1)]
           created_keeps[OF e[rule_format, OF i] d _ nn(2)] a v w
      show "obj_get (news ! i) cf = JStr c \<and> obj_get (news ! i) jf = JObj [(pkf, ids ! i)]"
        by simp
    qed
    then show "\<exists>news. create_list (get_value st') = create_list (get_value st) @ news
                \<and> update_list (get_value st') = update_list (get_value st)
                \<and> delete_list (get_value st') = delete_list (get_value st)
                \<and> length news = length ids
                \<and> (\<forall>i < length ids. obj_get (news ! i) cf = JStr c
                                      \<and> obj_get (news ! i) jf = JObj [(pkf, ids ! i)])"
      using n by blast
  }
qed

theorem select_records_witness:
  "relation_of example_state = Some (RelationO2M (Some ''sort'') ''parent'' ''id'')
   \<and> \<not> startsWith_dollar ''parent'' \<and> \<not> startsWith_dollar ''id'' \<and> ''parent'' \<noteq> ''id''
   \<and> (\<exists>st'. select example_state False [JNum 8, JNum 9] None = Return st'
          \<and> update_list (get_value st')
             = [[(''parent'', JNum 1), (''id'', JNum 7)], [(''id'', JNum 2), (''name'', JStr ''two'')],
                [(''parent'', JNum 1), (''id'', JNum 8)], [(''parent'', JNum 1), (''id'', JNum 9)]])
   \<and> relation_of example_m2m_state = Some (RelationM2M (Some ''sort'') ''parent_id'' ''id'' ''jid'' ''child'')
   \<and> \<not> startsWith_dollar ''child''
   \<and> \<not> startsWith_dollar ''sort'' \<and> ''sort'' \<noteq> ''parent_id'' \<and> ''sort'' \<noteq> ''child''
   \<and> sort_values_primitive example_m2m_state ''sort''
   \<and> (\<exists>st' news. select example_m2m_state False [JNum 8] None = Return st'
          \<and> create_list (get_value st') = create_list (get_value example_m2m_state) @ news
          \<and> length news = 1 \<and> obj_get (news ! 0) ''child'' = JObj [(''id'', JNum 8)])
   \<and> relation_of example_m2a_state
       = Some (RelationM2A None ''parent_id'' ''jid'' ''item'' ''collection''
                 [(''pages'', ''id''), (''posts'', ''slug'')] [''pages'', ''posts''])
   \<and> map_of [(''pages'', ''id''), (''posts'', ''slug'')] ''posts'' = Some ''slug''
   \<and> \<not> startsWith_dollar ''item'' \<and> \<not> startsWith_dollar ''collection''
   \<and> (\<exists>st' news. select example_m2a_state False [JNum 8] (Some ''posts'') = Return st'
          \<and> create_list (get_value st') = create_list (get_value example_m2a_state) @ news
          \<and> length news = 1 \<and> obj_get (news ! 0) ''collection'' = JStr ''posts''
          \<and> obj_get (news ! 0) ''item'' = JObj [(''slug'', JNum 8)])"
proof -
  have r1: "relation_of example_state = Some (RelationO2M (Some ''sort'') ''parent'' ''id'')"
    by (simp add: example_state_def example_o2m_def)
  have r2: "relation_of example_m2m_state
              = Some (RelationM2M (Some ''sort'') ''parent_id'' ''id'' ''jid'' ''child'')"
    by (simp add: example_m2m_state_def example_m2m_def)
  have r3: "relation_of example_m2a_state
       = Some (RelationM2A None ''parent_id'' ''jid'' ''item'' ''collection''
                 [(''pages'', ''id''), (''posts'', ''slug'')] [''pages'', ''posts''])"
    by (simp add: example_m2a_state_def example_m2a_def)
  have d: "\<not> startsWith_dollar ''parent''" "\<not> startsWith_dollar ''id''" "''parent'' \<noteq> ''id''"
    "\<not> startsWith_dollar ''child''" "\<not> startsWith_dollar ''item''"
    "\<not> startsWith_dollar ''collection''" "''collection'' \<noteq> ''item''" "''posts'' \<noteq> []"
    "map_of [(''pages'', ''id''), (''posts'', ''slug'')] ''posts'' = Some ''slug''"
    by simp_all
  have u: "update_list (get_value example_state)
             = [[(''parent'', JNum 1), (''id'', JNum 7)], [(''id'', JNum 2), (''name'', JStr ''two'')]]"
    "itemId example_state = JNum 1"
    by (simp_all add: example_state_def get_value_def)
  let ?s2 = "example_m2m_state\<lparr>value_of := VChanges
      \<lparr>create_list = [[(''parent_id'', JNum 1), (''child'', JObj [(''id'', JNum 7)]), (''sort'', JNum 4)],
                       [(''child'', JObj [(''name'', JStr ''fresh'')]), (''sort'', JNum 5)],
                       [(''parent_id'', JNum 1), (''child'', JObj [(''id'', JNum 8)]), (''sort'', JNum 6)]],
       update_list = [], delete_list = []\<rparr>\<rparr>"
  let ?s3 = "example_m2a_state\<lparr>value_of := VChanges
      \<lparr>create_list = [[(''parent_id'', JNum 1), (''collection'', JStr ''pages''),
                        (''item'', JObj [(''id'', JNum 5)])],
                       [(''parent_id'', JNum 1), (''collection'', JStr ''posts''),
                        (''item'', JObj [(''slug'', JNum 8)])]],
       update_list = [], delete_list = []\<rparr>\<rparr>"
  have s2: "select example_m2m_state False [JNum 8] None = Return ?s2" by code_simp
  have s3: "select example_m2a_state False [JNum 8] (Some ''posts'') = Return ?s3" by code_simp
  have a: "\<exists>st'. select example_state False [JNum 8, JNum 9] None = Return st'
          \<and> update_list (get_value st')
             = [[(''parent'', JNum 1), (''id'', JNum 7)], [(''id'', JNum 2), (''name'', JStr ''two'')],
                [(''parent'', JNum 1), (''id'', JNum 8)], [(''parent'', JNum 1), (''id'', JNum 9)]]"
    using select_records[where st = example_state and sfo = "Some ''sort''" and rjf = "''parent''"
        and rpk = "''id''" and ids = "[JNum 8, JNum 9]" and collection = None and cached = False]
      r1 d u by auto
  have b: "\<exists>st' news. select example_m2m_state False [JNum 8] None = Return st'
          \<and> create_list (get_value st') = create_list (get_value example_m2m_state) @ news
          \<and> length news = 1 \<and> obj_get (news ! 0) ''child'' = JObj [(''id'', JNum 8)]"
    using select_records[where st = example_m2m_state and sfo = "Some ''sort''" and rjf = "''parent_id''"
        and rpk = "''id''" and jpk = "''jid''" and jf = "''child''" and ids = "[JNum 8]"
        and collection = None and st' = ?s2 and cached = False] r2 d s2 by auto
  have c: "\<exists>st' news. select example_m2a_state False [JNum 8] (Some ''posts'') = Return st'
          \<and> create_list (get_value st') = create_list (get_value example_m2a_state) @ news
          \<and> length news = 1 \<and> obj_get (news ! 0) ''collection'' = JStr ''posts''
          \<and> obj_get (news ! 0) ''item'' = JObj [(''slug'', JNum 8)]"
    using select_records[where st = example_m2a_state and sfo = None and rjf = "''parent_id''"
        and jpk = "''jid''" and jf = "''item''" and cf = "''collection''"
        and rpkf = "[(''pages'', ''id''), (''posts'', ''slug'')]" and allowed = "[''pages'', ''posts'']"
        and c = "''posts''" and pkf = "''slug''" and ids = "[JNum 8]"
        and collection = "Some ''posts''" and st' = ?s3 and cached = False]
      r3 d s3 by auto
  have e: "\<not> startsWith_dollar ''sort''" "''sort'' \<noteq> ''parent_id''" "''sort'' \<noteq> ''child''"
    by simp_all
  have pr: "sort_values_primitive example_m2m_state ''sort''" by code_simp
  show ?thesis using r1 r2 r3 d a b c e pr by blast
qed

text \<open>
  C9 (as amended). For an \<open>m2a\<close> relation, \<open>select\<close> called with at least one id and without
  a collection (none, or the empty string) throws while it builds the entries, before
  \<open>create\<close> runs: nothing is written to the create, update and delete lists. Called with
  no id it returns without throwing, and the three lists are as before.
\<close>

theorem select_m2a_without_collection:
  "relation_of st = Some info \<and> type_of info = M2A \<and> (collection = None \<or> collection = Some []) \<longrightarrow>
     (ids \<noteq> [] \<longrightarrow>
        map_outcome (select_entry info (itemId st) collection) ids
          = Throw ''You need to provide a collection on an m2a''
        \<and> select st cached ids collection = Throw ''You need to provide a collection on an m2a'')
     \<and> (\<exists>st'. select st cached [] collection = Return st' \<and> get_value st' = get_value st)"
proof (intro impI conjI)
  assume a: "relation_of st = Some info \<and> type_of info = M2A \<and> (collection = None \<or> collection = Some [])"
  then obtain sfo rjf jpk jf cf rpkf allowed where
    i: "info = RelationM2A sfo rjf jpk jf cf rpkf allowed" by (cases info) auto
  have t: "select_entry info (itemId st) collection x = Throw ''You need to provide a collection on an m2a''"
    for x using a i by auto
  {
    assume ne: "ids \<noteq> []"
    show m: "map_outcome (select_entry info (itemId st) collection) ids
          = Throw ''You need to provide a collection on an m2a''"
      by (rule map_outcome_Throw[OF ne]) (rule t)
    show "select st cached ids collection = Throw ''You need to provide a collection on an m2a''"
      using a m by (simp add: select_def)
  }
  have "select st cached [] collection = Return (updateValue st (get_value st))"
    using a by (simp add: select_def create_def)
  then show "\<exists>st'. select st cached [] collection = Return st' \<and> get_value st' = get_value st"
    by (simp add: get_value_updateValue)
qed

theorem select_m2a_without_collection_witness:
  "relation_of example_m2a_state = Some example_m2a \<and> type_of example_m2a = M2A
   \<and> [JNum 8] \<noteq> []
   \<and> select example_m2a_state False [JNum 8] None = Throw ''You need to provide a collection on an m2a''
   \<and> select example_m2a_state False [JNum 8] (Some []) = Throw ''You need to provide a collection on an m2a''
   \<and> (\<exists>st'. select example_m2a_state False [] None = Return st'
         \<and> get_value st' = get_value example_m2a_state)"
proof -
  have r: "relation_of example_m2a_state = Some example_m2a" by (simp add: example_m2a_state_def)
  have t: "type_of example_m2a = M2A" by (simp add: example_m2a_def)
  show ?thesis
    using select_m2a_without_collection[where st = example_m2a_state and info = example_m2a
        and collection = None and ids = "[JNum 8]" and cached = False]
      select_m2a_without_collection[where st = example_m2a_state and info = example_m2a
        and collection = "Some []" and ids = "[JNum 8]" and cached = False] r t
    by simp
qed

text \<open>C9 as the specification states it fails for the empty list of ids: the check sits
  in the callback of \<open>items.map\<close>, which never runs, and the call returns.\<close>

theorem select_m2a_empty_counterexample:
  "relation_of example_m2a_state = Some example_m2a \<and> type_of example_m2a = M2A
   \<and> select example_m2a_state False [] None = Return example_m2a_state"
  by (simp add: select_def create_def updateValue_def get_value_def example_m2a_state_def
      example_m2a_def)

section \<open>Merging\<close>

lemma obj_get_absent: "k \<notin> set (map fst ob) \<Longrightarrow> obj_get ob k = JUndefined"
  by (simp add: obj_get_def map_of_eq_None_iff[THEN iffD2] image_iff split: option.splits)

lemma merge_into_disjoint:
  "wf_val (JObj src) \<Longrightarrow> set (map fst dst) \<inter> set (map fst src) = {} \<Longrightarrow>
   merge_into dst src = dst @ src"
proof (induction dst src rule: merge_into.induct)
  case (1 dst)
  then show ?case by simp
next
  case (2 dst k src rest)
  from "2.prems" have k: "k \<notin> set (map fst dst)" by auto
  have base: "(case obj_get dst k of JObj d \<Rightarrow> d | _ \<Rightarrow> []) = []"
    by (simp add: obj_get_absent[OF k])
  from "2.prems" have wsrc: "wf_val (JObj src)" by simp
  have inner: "merge_into [] src = src"
    using "2.IH"(1)[unfolded base, OF wsrc] by simp
  have wrest: "wf_val (JObj rest)" using "2.prems" by simp
  have disj: "set (map fst (dst @ [(k, JObj src)])) \<inter> set (map fst rest) = {}"
    using "2.prems" by auto
  show ?case
    using "2.IH"(2)[unfolded base inner obj_set_fresh[OF k], OF wrest disj]
    by (simp add: base inner obj_set_fresh[OF k])
next
  case (3 dst k rest)
  from "3.prems" have k: "k \<notin> set (map fst dst)" by auto
  have wrest: "wf_val (JObj rest)" using "3.prems" by simp
  have disj: "set (map fst (dst @ [(k, JUndefined)])) \<inter> set (map fst rest) = {}"
    using "3.prems" by auto
  have hk: "\<not> has_key dst k" using k by (simp add: has_key_def)
  show ?case using "3.IH"[unfolded if_not_P[OF hk] obj_set_fresh[OF k], OF wrest disj] hk
    by (simp add: obj_set_fresh[OF k])
qed (auto simp: obj_set_fresh)

lemma merge_into_copy: "wf_obj item \<Longrightarrow> merge_into [] item = item"
  using merge_into_disjoint[of item "[]"] by (simp add: wf_obj_def)

lemma merge_copy: "wf_obj item \<Longrightarrow> merge [] [item] = item"
  by (simp add: merge_def merge_into_copy)

section \<open>Removing and restoring\<close>

lemma findIndex_append_last:
  "(\<And>x. x \<in> set xs \<Longrightarrow> \<not> p x) \<Longrightarrow> p y \<Longrightarrow> findIndex p (xs @ [y]) = int (length xs)"
  by (induction xs) (auto simp: Let_def)

lemma splice_one_last: "splice_one (xs @ [y]) (JNum (int (length xs))) = Return xs"
  by (simp add: splice_one_def Let_def)

lemma display_fetched_untouched:
  "wf_obj item \<Longrightarrow> editsIndex info ch item = -1 \<Longrightarrow> deleteIndex info ch item = -1 \<Longrightarrow>
   display_fetched info ch item = item"
  by (simp add: display_fetched_def merge_copy)

lemma display_fetched_deleted:
  "wf_obj item \<Longrightarrow> editsIndex info ch item = -1 \<Longrightarrow> deleteIndex info ch item = j \<Longrightarrow> j \<noteq> -1 \<Longrightarrow>
   display_fetched info ch item
     = obj_set (obj_set item ''$type'' (JStr ''deleted'')) ''$index'' (JNum j)"
  by (simp add: display_fetched_def merge_into_copy merge_def deleted_tags_def)

text \<open>
  C10. Take a fetched item (an object) with no pending edit and no pending delete, whose
  display record is therefore the item itself and untagged, and whose primary-key value is
  comparable by \<open>===\<close> (a string, a number, a boolean, \<open>null\<close> or \<open>undefined\<close>). Applying
  \<open>remove\<close> to it appends its primary-key value to the delete list; its display record is
  then tagged \<open>$type\<close> \<open>'deleted'\<close> with \<open>$index\<close> the position of that new entry; and applying
  \<open>remove\<close> to this record splices the entry out again, which restores the delete list (and
  the create and update lists) to the state before the first call.
\<close>

theorem remove_twice_restores:
  assumes rel: "relation_of st = Some info"
    and wf: "wf_obj item"
    and untagged: "obj_get item ''$type'' = JUndefined \<or> obj_get item ''$index'' = JUndefined"
    and noedit: "editsIndex info (get_value st) item = -1"
    and nodelete: "deleteIndex info (get_value st) item = -1"
    and pk: "strict_eq (obj_get item (targetPKField info)) (obj_get item (targetPKField info))"
  shows "\<exists>st1 st2.
           remove st [display_fetched info (get_value st) item] = Return st1
         \<and> st1 = st\<lparr>value_of := VChanges ((get_value st)
                     \<lparr>delete_list := delete_list (get_value st) @ [obj_get item (targetPKField info)]\<rparr>)\<rparr>
         \<and> obj_get (display_fetched info (get_value st1) item) ''$type'' = JStr ''deleted''
         \<and> obj_get (display_fetched info (get_value st1) item) ''$index''
             = JNum (int (length (delete_list (get_value st))))
         \<and> remove st1 [display_fetched info (get_value st1) item] = Return st2
         \<and> get_value st2 = get_value st"
proof -
  let ?ch = "get_value st"
  let ?pk = "targetPKField info"
  let ?p = "obj_get item ?pk"
  let ?ch1 = "?ch\<lparr>delete_list := delete_list ?ch @ [?p]\<rparr>"
  let ?st1 = "st\<lparr>value_of := VChanges ?ch1\<rparr>"
  let ?n = "int (length (delete_list ?ch))"
  have d0: "display_fetched info ?ch item = item"
    by (rule display_fetched_untouched[OF wf noedit nodelete])
  have l1: "remove_loop st ?pk ?ch [item] = Return ?ch1" using untagged by auto
  have u1: "updateValue st ?ch1 = ?st1" by (simp add: updateValue_def)
  have r1: "remove st [display_fetched info ?ch item] = Return ?st1"
    unfolding d0 using rel l1 u1 by (simp add: remove_def)
  have g1: "get_value ?st1 = ?ch1" by (simp add: get_value_def)
  have e1: "editsIndex info ?ch1 item = -1" using noedit by (simp add: editsIndex_def)
  have none: "\<And>x. x \<in> set (delete_list ?ch) \<Longrightarrow> \<not> strict_eq x ?p"
    using nodelete by (simp add: deleteIndex_def findIndex_none)
  have x1: "deleteIndex info ?ch1 item = ?n"
    unfolding deleteIndex_def using findIndex_append_last[of "delete_list ?ch" "\<lambda>id. strict_eq id ?p" ?p, OF none pk]
    by simp
  have d1: "display_fetched info ?ch1 item
              = obj_set (obj_set item ''$type'' (JStr ''deleted'')) ''$index'' (JNum ?n)"
    by (rule display_fetched_deleted[OF wf e1 x1]) simp
  let ?d1 = "obj_set (obj_set item ''$type'' (JStr ''deleted'')) ''$index'' (JNum ?n)"
  have t1: "obj_get ?d1 ''$type'' = JStr ''deleted''" "obj_get ?d1 ''$index'' = JNum ?n"
    by (simp_all add: obj_get_obj_set)
  have l2: "remove_loop ?st1 ?pk ?ch1 [?d1] = Return ?ch"
    using t1 splice_one_last[of "delete_list ?ch" ?p] by simp
  have r2: "remove ?st1 [?d1] = Return (updateValue ?st1 ?ch)"
    using rel l2 g1 by (simp add: remove_def)
  have dd: "display_fetched info (get_value ?st1) item = ?d1" using d1 g1 by simp
  have c1: "obj_get (display_fetched info (get_value ?st1) item) ''$type'' = JStr ''deleted''"
    and c2: "obj_get (display_fetched info (get_value ?st1) item) ''$index'' = JNum ?n"
    unfolding dd using t1 by simp_all
  have c3: "remove ?st1 [display_fetched info (get_value ?st1) item] = Return (updateValue ?st1 ?ch)"
    unfolding dd by (rule r2)
  have c4: "get_value (updateValue ?st1 ?ch) = ?ch" by (rule get_value_updateValue)
  show ?thesis
    by (intro exI[of _ ?st1] exI[of _ "updateValue ?st1 ?ch"] conjI r1 refl c1 c2 c3 c4)
qed

theorem remove_twice_restores_witness:
  "relation_of example_state = Some example_o2m
   \<and> wf_obj [(''id'', JNum 4), (''name'', JStr ''d''), (''sort'', JNum 3)]
   \<and> obj_get [(''id'', JNum 4), (''name'', JStr ''d''), (''sort'', JNum 3)] ''$type'' = JUndefined
   \<and> editsIndex example_o2m (get_value example_state)
         [(''id'', JNum 4), (''name'', JStr ''d''), (''sort'', JNum 3)] = -1
   \<and> deleteIndex example_o2m (get_value example_state)
         [(''id'', JNum 4), (''name'', JStr ''d''), (''sort'', JNum 3)] = -1
   \<and> strict_eq (JNum 4) (JNum 4)
   \<and> delete_list (get_value example_state) = [JNum 3]
   \<and> (\<exists>st1 st2.
         remove example_state [[(''id'', JNum 4), (''name'', JStr ''d''), (''sort'', JNum 3)]] = Return st1
       \<and> delete_list (get_value st1) = [JNum 3, JNum 4]
       \<and> display_fetched example_o2m (get_value st1)
            [(''id'', JNum 4), (''name'', JStr ''d''), (''sort'', JNum 3)]
          = [(''id'', JNum 4), (''name'', JStr ''d''), (''sort'', JNum 3),
             (''$type'', JStr ''deleted''), (''$index'', JNum 1)]
       \<and> remove st1 [[(''id'', JNum 4), (''name'', JStr ''d''), (''sort'', JNum 3),
             (''$type'', JStr ''deleted''), (''$index'', JNum 1)]] = Return st2
       \<and> get_value st2 = get_value example_state)"
proof -
  let ?item = "[(''id'', JNum 4), (''name'', JStr ''d''), (''sort'', JNum 3)]"
  have r: "relation_of example_state = Some example_o2m" by (simp add: example_state_def)
  have w: "wf_obj ?item" by (simp add: wf_obj_def)
  have u: "obj_get ?item ''$type'' = JUndefined" by (simp add: obj_get_def)
  have e: "editsIndex example_o2m (get_value example_state) ?item = -1" by code_simp
  have d: "deleteIndex example_o2m (get_value example_state) ?item = -1" by code_simp
  have pk: "obj_get ?item (targetPKField example_o2m) = JNum 4" by code_simp
  have p: "strict_eq (obj_get ?item (targetPKField example_o2m)) (obj_get ?item (targetPKField example_o2m))"
    unfolding pk by simp
  have dl: "delete_list (get_value example_state) = [JNum 3]"
    by (simp add: example_state_def get_value_def)
  have d0: "display_fetched example_o2m (get_value example_state) ?item = ?item" by code_simp
  from remove_twice_restores[OF r w disjI1[OF u] e d p]
  obtain st1 st2 where
    a: "remove example_state [display_fetched example_o2m (get_value example_state) ?item] = Return st1"
    and b: "st1 = example_state\<lparr>value_of := VChanges ((get_value example_state)
                     \<lparr>delete_list := delete_list (get_value example_state)
                          @ [obj_get ?item (targetPKField example_o2m)]\<rparr>)\<rparr>"
    and c: "remove st1 [display_fetched example_o2m (get_value st1) ?item] = Return st2"
    and f: "get_value st2 = get_value example_state"
    by blast
  have g: "delete_list (get_value st1) = [JNum 3, JNum 4]"
    unfolding b pk dl by (simp add: get_value_def)
  have h: "display_fetched example_o2m (get_value st1) ?item
          = [(''id'', JNum 4), (''name'', JStr ''d''), (''sort'', JNum 3),
             (''$type'', JStr ''deleted''), (''$index'', JNum 1)]"
    unfolding b pk dl by code_simp
  show ?thesis using r w u e d dl a[unfolded d0] g h c[unfolded h] f by auto
qed

section \<open>Failing fetches\<close>

lemma await_all_failed:
  "Failed e \<in> set rs \<Longrightarrow> \<exists>e'. Failed e' \<in> set rs \<and> await_all rs = Throw e'"
proof (induction rs)
  case Nil
  then show ?case by simp
next
  case (Cons r rs)
  show ?case
  proof (cases r)
    case (Failed x)
    then show ?thesis by auto
  next
    case (Response d)
    with Cons.prems have "Failed e \<in> set rs" by auto
    from Cons.IH[OF this] obtain e' where "Failed e' \<in> set rs" "await_all rs = Throw e'" by blast
    then show ?thesis using Response by auto
  qed
qed

text \<open>
  C6 (as amended). The network calls of \<open>updateFetchedItems\<close> (the item count, the sort
  maximum when a sort field is set, the items) are covered by one \<open>try\<close>/\<open>catch\<close>: once the
  \<open>try\<close> is entered the call returns whichever of them fails, the error of the failing
  call is passed to the unexpected-error handler, and the loading flag is \<open>false\<close>
  afterwards. The fetches of \<open>loadSelectedDisplayO2M\<close>, \<open>loadSelectedDisplayM2M\<close> and
  \<open>loadSelectedDisplayM2A\<close> are outside any \<open>try\<close>: when there are selected items on the
  page and a fetch fails, the error propagates to the caller (for \<open>m2a\<close>, where one fetch
  is made per collection, the error of one of the failing fetches).
\<close>

theorem updateFetchedItems_guarded:
  "(relation_of st = Some info \<and> truthy (itemId st) \<and> itemId st \<noteq> JStr ''+'' \<and> fields_readable info \<longrightarrow>
      (\<exists>st'. updateFetchedItems st countR maxR itemsR = Return st' \<and> loading st' = False
         \<and> (countR = Failed e \<longrightarrow> unexpectedErrors st' = unexpectedErrors st @ [e])
         \<and> (countR = Response n \<and> sort_field st = Some sf \<and> sf \<noteq> [] \<and> maxR = Failed e \<longrightarrow>
               unexpectedErrors st' = unexpectedErrors st @ [e])
         \<and> (countR = Response n \<and> (sort_field st = None \<or> sort_field st = Some [] \<or> maxR = Response m)
               \<and> itemsR = Failed e \<longrightarrow>
               unexpectedErrors st' = unexpectedErrors st @ [e])
         \<and> (countR = Response n \<and> (sort_field st = None \<or> sort_field st = Some [] \<or> maxR = Response m)
               \<and> itemsR = Response d \<longrightarrow>
               unexpectedErrors st' = unexpectedErrors st \<and> existingItemCount st' = n
               \<and> fetchedItems st' = d)))
   \<and> (selectedOnPage st \<noteq> [] \<longrightarrow> loadSelectedDisplayO2M st (Failed e) = Throw e)
   \<and> (selectedOnPage st \<noteq> []
        \<and> map_outcome (\<lambda>item. js_get (obj_get item (junctionField rel)) (relatedPrimaryKeyField rel))
              (selectedOnPage st) = Return ids \<longrightarrow>
        loadSelectedDisplayM2M rel st (Failed e) = Throw e)
   \<and> (selectedOnPage st \<noteq> []
        \<and> selectGrouped_from (collectionField rel) [] (selectedOnPage st) = Return selectGrouped
        \<and> map_outcome (group_request rel) selectGrouped = Return requests
        \<and> g \<in> set selectGrouped \<and> responses (fst g) = Failed e \<longrightarrow>
        (\<exists>e' g'. g' \<in> set selectGrouped \<and> responses (fst g') = Failed e'
            \<and> loadSelectedDisplayM2A rel st responses = Throw e'))"
proof (intro conjI impI)
  assume a: "relation_of st = Some info \<and> truthy (itemId st) \<and> itemId st \<noteq> JStr ''+'' \<and> fields_readable info"
  obtain s1 err where t: "try_block st countR maxR itemsR = (s1, err)" by (cases "try_block st countR maxR itemsR")
  let ?st' = "case err of None \<Rightarrow> s1\<lparr>loading := False\<rparr>
              | Some x \<Rightarrow> s1\<lparr>unexpectedErrors := unexpectedErrors s1 @ [x], loading := False\<rparr>"
  have r: "updateFetchedItems st countR maxR itemsR = Return ?st'"
    using a t by (simp add: updateFetchedItems_def split: option.splits)
  have l: "loading ?st' = False" by (simp split: option.splits)
  have c1: "countR = Failed e \<longrightarrow> unexpectedErrors ?st' = unexpectedErrors st @ [e]"
    using t by (auto simp: try_block_def Let_def)
  have c2: "countR = Response n \<and> sort_field st = Some sf \<and> sf \<noteq> [] \<and> maxR = Failed e \<longrightarrow>
               unexpectedErrors ?st' = unexpectedErrors st @ [e]"
    using t a by (auto simp: try_block_def fetch_sort_max_def sort_field_def Let_def)
  have c3: "countR = Response n \<and> (sort_field st = None \<or> sort_field st = Some [] \<or> maxR = Response m)
               \<and> itemsR = Failed e \<longrightarrow>
               unexpectedErrors ?st' = unexpectedErrors st @ [e]"
    using t a by (auto simp: try_block_def fetch_sort_max_def sort_field_def Let_def
        split: option.splits if_splits)
  have c4: "countR = Response n \<and> (sort_field st = None \<or> sort_field st = Some [] \<or> maxR = Response m)
               \<and> itemsR = Response d \<longrightarrow>
               unexpectedErrors ?st' = unexpectedErrors st \<and> existingItemCount ?st' = n
               \<and> fetchedItems ?st' = d"
    using t a by (auto simp: try_block_def fetch_sort_max_def sort_field_def Let_def
        split: option.splits if_splits)
  show "\<exists>st'. updateFetchedItems st countR maxR itemsR = Return st' \<and> loading st' = False
         \<and> (countR = Failed e \<longrightarrow> unexpectedErrors st' = unexpectedErrors st @ [e])
         \<and> (countR = Response n \<and> sort_field st = Some sf \<and> sf \<noteq> [] \<and> maxR = Failed e \<longrightarrow>
               unexpectedErrors st' = unexpectedErrors st @ [e])
         \<and> (countR = Response n \<and> (sort_field st = None \<or> sort_field st = Some [] \<or> maxR = Response m)
               \<and> itemsR = Failed e \<longrightarrow>
               unexpectedErrors st' = unexpectedErrors st @ [e])
         \<and> (countR = Response n \<and> (sort_field st = None \<or> sort_field st = Some [] \<or> maxR = Response m)
               \<and> itemsR = Response d \<longrightarrow>
               unexpectedErrors st' = unexpectedErrors st \<and> existingItemCount st' = n
               \<and> fetchedItems st' = d)"
    by (intro exI[of _ ?st'] conjI r l c1 c2 c3 c4)
next
  assume "selectedOnPage st \<noteq> []"
  then show "loadSelectedDisplayO2M st (Failed e) = Throw e"
    by (simp add: loadSelectedDisplayO2M_def)
next
  assume "selectedOnPage st \<noteq> []
        \<and> map_outcome (\<lambda>item. js_get (obj_get item (junctionField rel)) (relatedPrimaryKeyField rel))
              (selectedOnPage st) = Return ids"
  then show "loadSelectedDisplayM2M rel st (Failed e) = Throw e"
    by (simp add: loadSelectedDisplayM2M_def)
next
  assume a: "selectedOnPage st \<noteq> []
        \<and> selectGrouped_from (collectionField rel) [] (selectedOnPage st) = Return selectGrouped
        \<and> map_outcome (group_request rel) selectGrouped = Return requests
        \<and> g \<in> set selectGrouped \<and> responses (fst g) = Failed e"
  then have "Failed e \<in> set (map (\<lambda>g. responses (fst g)) selectGrouped)" by force
  from await_all_failed[OF this] obtain e' where
    e': "Failed e' \<in> set (map (\<lambda>g. responses (fst g)) selectGrouped)"
        "await_all (map (\<lambda>g. responses (fst g)) selectGrouped) = Throw e'" by blast
  from e'(1) obtain g' where g': "g' \<in> set selectGrouped" "responses (fst g') = Failed e'"
    by auto
  have "loadSelectedDisplayM2A rel st responses = Throw e'"
    using a e'(2) by (simp add: loadSelectedDisplayM2A_def)
  with g' show "\<exists>e' g'. g' \<in> set selectGrouped \<and> responses (fst g') = Failed e'
            \<and> loadSelectedDisplayM2A rel st responses = Throw e'" by blast
qed

theorem updateFetchedItems_guarded_witness:
  "relation_of example_state = Some example_o2m \<and> truthy (itemId example_state)
   \<and> itemId example_state \<noteq> JStr ''+'' \<and> fields_readable example_o2m
   \<and> sort_field example_state = Some ''sort''
   \<and> (\<exists>st'. updateFetchedItems example_state (Failed ''offline'') (Response JNull) (Response [])
                = Return st'
          \<and> loading st' = False \<and> unexpectedErrors st' = [''offline''])
   \<and> (\<exists>st'. updateFetchedItems example_state (Response 3) (Failed ''offline'') (Response [])
                = Return st'
          \<and> loading st' = False \<and> unexpectedErrors st' = [''offline''])
   \<and> (\<exists>st'. updateFetchedItems example_state (Response 3) (Response (JNum 3)) (Failed ''offline'')
                = Return st'
          \<and> loading st' = False \<and> unexpectedErrors st' = [''offline''])
   \<and> (\<exists>st'. updateFetchedItems example_state (Response 3) (Response (JNum 3))
                  (Response [[(''id'', JNum 2)]]) = Return st'
          \<and> loading st' = False \<and> unexpectedErrors st' = []
          \<and> fetchedItems st' = [[(''id'', JNum 2)]])
   \<and> selectedOnPage example_state \<noteq> []
   \<and> loadSelectedDisplayO2M example_state (Failed ''offline'') = Throw ''offline''
   \<and> selectedOnPage example_m2m_state \<noteq> []
   \<and> map_outcome (\<lambda>item. js_get (obj_get item (junctionField example_m2m))
                                (relatedPrimaryKeyField example_m2m))
         (selectedOnPage example_m2m_state) = Return [JNum 7]
   \<and> loadSelectedDisplayM2M example_m2m example_m2m_state (Failed ''offline'') = Throw ''offline''
   \<and> selectedOnPage example_m2a_two \<noteq> []
   \<and> selectGrouped_from (collectionField example_m2a) [] (selectedOnPage example_m2a_two)
       = Return
           [(''pages'', [[(''parent_id'', JNum 1), (''collection'', JStr ''pages''),
                          (''item'', JObj [(''id'', JNum 5)]), (''$index'', JNum 0),
                          (''$type'', JStr ''created'')]]),
            (''posts'', [[(''parent_id'', JNum 1), (''collection'', JStr ''posts''),
                          (''item'', JObj [(''slug'', JStr ''a'')]), (''$index'', JNum 1),
                          (''$type'', JStr ''created'')]])]
   \<and> map_outcome (group_request example_m2a)
         [(''pages'', [[(''parent_id'', JNum 1), (''collection'', JStr ''pages''),
                        (''item'', JObj [(''id'', JNum 5)]), (''$index'', JNum 0),
                        (''$type'', JStr ''created'')]]),
          (''posts'', [[(''parent_id'', JNum 1), (''collection'', JStr ''posts''),
                        (''item'', JObj [(''slug'', JStr ''a'')]), (''$index'', JNum 1),
                        (''$type'', JStr ''created'')]])]
       = Return [(''id'', [JNum 5]), (''slug'', [JStr ''a''])]
   \<and> loadSelectedDisplayM2A example_m2a example_m2a_two
         (\<lambda>c. if c = ''posts'' then Failed ''offline'' else Response [[(''id'', JNum 5)]])
       = Throw ''offline''"
proof -
  have h: "relation_of example_state = Some example_o2m \<and> truthy (itemId example_state)
     \<and> itemId example_state \<noteq> JStr ''+'' \<and> fields_readable example_o2m"
    by (simp add: example_state_def example_o2m_def fields_readable_def)
  have sf: "sort_field example_state = Some ''sort''"
    by (simp add: sort_field_def example_state_def example_o2m_def)
  have lg: "unexpectedErrors example_state = []" by (simp add: example_state_def)
  have sp: "selectedOnPage example_state \<noteq> []" by code_simp
  have a: "\<exists>st'. updateFetchedItems example_state (Failed ''offline'') (Response JNull) (Response [])
                = Return st'
          \<and> loading st' = False \<and> unexpectedErrors st' = [''offline'']"
    using updateFetchedItems_guarded[where st = example_state and info = example_o2m
             and e = "''offline''" and sf = "''sort''" and n = 3 and m = "JNum 3"
             and d = "[[(''id'', JNum 2)]]" and countR = "Failed ''offline''" and maxR = "Response JNull"
             and itemsR = "Response []", THEN conjunct1]
      h lg by auto
  have b: "\<exists>st'. updateFetchedItems example_state (Response 3) (Failed ''offline'') (Response [])
                = Return st'
          \<and> loading st' = False \<and> unexpectedErrors st' = [''offline'']"
    using updateFetchedItems_guarded[where st = example_state and info = example_o2m
             and e = "''offline''" and sf = "''sort''" and n = 3 and m = "JNum 3"
             and d = "[[(''id'', JNum 2)]]" and countR = "Response 3" and maxR = "Failed ''offline''"
             and itemsR = "Response []", THEN conjunct1]
      h lg sf by auto
  have c: "\<exists>st'. updateFetchedItems example_state (Response 3) (Response (JNum 3)) (Failed ''offline'')
                = Return st'
          \<and> loading st' = False \<and> unexpectedErrors st' = [''offline'']"
    using updateFetchedItems_guarded[where st = example_state and info = example_o2m
             and e = "''offline''" and sf = "''sort''" and n = 3 and m = "JNum 3"
             and d = "[[(''id'', JNum 2)]]" and countR = "Response 3" and maxR = "Response (JNum 3)"
             and itemsR = "Failed ''offline''", THEN conjunct1]
      h lg by auto
  have d: "\<exists>st'. updateFetchedItems example_state (Response 3) (Response (JNum 3))
                  (Response [[(''id'', JNum 2)]]) = Return st'
          \<and> loading st' = False \<and> unexpectedErrors st' = []
          \<and> fetchedItems st' = [[(''id'', JNum 2)]]"
    using updateFetchedItems_guarded[where st = example_state and info = example_o2m
             and e = "''offline''" and sf = "''sort''" and n = 3 and m = "JNum 3"
             and d = "[[(''id'', JNum 2)]]" and countR = "Response 3" and maxR = "Response (JNum 3)"
             and itemsR = "Response [[(''id'', JNum 2)]]", THEN conjunct1] h lg by auto
  have f: "loadSelectedDisplayO2M example_state (Failed ''offline'') = Throw ''offline''"
    using updateFetchedItems_guarded[where st = example_state and e = "''offline''",
        THEN conjunct2, THEN conjunct1] sp
    by blast
  have sp2: "selectedOnPage example_m2m_state \<noteq> []" by code_simp
  have ids: "map_outcome (\<lambda>item. js_get (obj_get item (junctionField example_m2m))
                                (relatedPrimaryKeyField example_m2m))
         (selectedOnPage example_m2m_state) = Return [JNum 7]" by code_simp
  have g: "loadSelectedDisplayM2M example_m2m example_m2m_state (Failed ''offline'') = Throw ''offline''"
    using updateFetchedItems_guarded[where st = example_m2m_state and rel = example_m2m
        and ids = "[JNum 7]" and e = "''offline''",
        THEN conjunct2, THEN conjunct2, THEN conjunct1] sp2 ids
    by blast
  let ?G = "[(''pages'', [[(''parent_id'', JNum 1), (''collection'', JStr ''pages''),
                          (''item'', JObj [(''id'', JNum 5)]), (''$index'', JNum 0),
                          (''$type'', JStr ''created'')]]),
            (''posts'', [[(''parent_id'', JNum 1), (''collection'', JStr ''posts''),
                          (''item'', JObj [(''slug'', JStr ''a'')]), (''$index'', JNum 1),
                          (''$type'', JStr ''created'')]])]"
  let ?R = "\<lambda>c. if c = ''posts'' then Failed ''offline'' else Response [[(''id'', JNum 5)]]"
  have sp3: "selectedOnPage example_m2a_two \<noteq> []" by code_simp
  have gr: "selectGrouped_from (collectionField example_m2a) [] (selectedOnPage example_m2a_two)
              = Return ?G" by code_simp
  have rq: "map_outcome (group_request example_m2a) ?G
              = Return [(''id'', [JNum 5]), (''slug'', [JStr ''a''])]" by code_simp
  have mem: "(''posts'', [[(''parent_id'', JNum 1), (''collection'', JStr ''posts''),
                          (''item'', JObj [(''slug'', JStr ''a'')]), (''$index'', JNum 1),
                          (''$type'', JStr ''created'')]]) \<in> set ?G" by simp
  let ?g = "(''posts'', [[(''parent_id'', JNum 1), (''collection'', JStr ''posts''),
                          (''item'', JObj [(''slug'', JStr ''a'')]), (''$index'', JNum 1),
                          (''$type'', JStr ''created'')]])"
  have fl: "?R (fst ?g) = Failed ''offline''" by simp
  have pre: "selectedOnPage example_m2a_two \<noteq> []
        \<and> selectGrouped_from (collectionField example_m2a) [] (selectedOnPage example_m2a_two)
            = Return ?G
        \<and> map_outcome (group_request example_m2a) ?G
            = Return [(''id'', [JNum 5]), (''slug'', [JStr ''a''])]
        \<and> ?g \<in> set ?G \<and> ?R (fst ?g) = Failed ''offline''"
    by (intro conjI sp3 gr rq mem fl)
  have "\<exists>e' g'. g' \<in> set ?G \<and> ?R (fst g') = Failed e'
            \<and> loadSelectedDisplayM2A example_m2a example_m2a_two ?R = Throw e'"
    by (rule updateFetchedItems_guarded[where st = example_m2a_two and rel = example_m2a
        and selectGrouped = ?G and requests = "[(''id'', [JNum 5]), (''slug'', [JStr ''a''])]"
        and g = ?g and responses = ?R and e = "''offline''",
        THEN conjunct2, THEN conjunct2, THEN conjunct2, THEN mp, OF pre])
  then obtain e' g' where x: "g' \<in> set ?G" "?R (fst g') = Failed e'"
    "loadSelectedDisplayM2A example_m2a example_m2a_two ?R = Throw e'"
    by (elim exE conjE) (rule that)
  have "e' = ''offline''" using x(2) by (simp split: if_splits)
  with x(3) have k: "loadSelectedDisplayM2A example_m2a example_m2a_two ?R = Throw ''offline''"
    by simp
  show ?thesis by (intro conjI h[THEN conjunct1] h[THEN conjunct2, THEN conjunct1]
      h[THEN conjunct2, THEN conjunct2, THEN conjunct1]
      h[THEN conjunct2, THEN conjunct2, THEN conjunct2] sf a b c d sp f sp2 ids g sp3 gr rq k)
qed

text \<open>C6 as the specification states it fails for the fetch of the selected items'
  display data: its error is not caught.\<close>

theorem loadSelectedDisplay_unguarded_counterexample:
  "map_option type_of (relation_of example_state) = Some O2M
   \<and> selectedOnPage example_state \<noteq> []
   \<and> loadSelectedDisplayO2M example_state (Failed ''Network Error'') = Throw ''Network Error''"
  by code_simp

section \<open>The display records\<close>








lemma length_display_created: "length (display_created news) = length news"
  by (simp add: display_created_def)







end
